theory Spec2Isabelle
  imports Complex_Main "HOL-Library.AList"
begin

text \<open>
  The ZeroClaw browser bridge, embedded in HOL: the bridge server that relays REST commands
  to the Chrome extension over one WebSocket and matches replies to callers by correlation
  id; the extension's service worker, which routes commands and reconnects; and the content
  script's element resolver. Handlers are functions from state to state; what the
  environment decides (frames arriving, sockets opening and closing, timers firing, the
  browser's answers, the id drawn by \<open>crypto.randomUUID\<close>) is an argument or an event.
\<close>

section \<open>JSON values as the JavaScript code sees them\<close>

text \<open>
  Frames, request bodies and results are JSON. A parsed value is a \<open>json\<close>; a JavaScript
  expression that may be \<open>undefined\<close> is a \<open>json option\<close> with \<open>None\<close> for \<open>undefined\<close>.
  Numbers are the integers (tab ids, counts); an object is the list of its own properties in
  insertion order, with distinct keys as \<open>JSON.parse\<close> leaves them.
\<close>

datatype json =
    JNull
  | JBool bool
  | JNum int
  | JStr string
  | JArr "json list"
  | JObj "(string \<times> json) list"

text \<open>ToBoolean: \<open>if (x)\<close>, \<open>!x\<close>, \<open>x && y\<close>, \<open>x || y\<close>.\<close>

fun truthy :: "json option \<Rightarrow> bool" where
  "truthy None = False"
| "truthy (Some JNull) = False"
| "truthy (Some (JBool b)) = b"
| "truthy (Some (JNum n)) = (n \<noteq> 0)"
| "truthy (Some (JStr s)) = (s \<noteq> [])"
| "truthy (Some (JArr xs)) = True"
| "truthy (Some (JObj kvs)) = True"

text \<open>
  Property access \<open>v.k\<close> for the keys the code reads (type, id, success, data, error, action,
  url, tabId): an object yields its own property, every other value but \<open>null\<close> yields
  \<open>undefined\<close>. Reading a property of \<open>null\<close> throws; each use site handles \<open>JNull\<close> first.
\<close>

fun get_prop :: "json \<Rightarrow> string \<Rightarrow> json option" where
  "get_prop (JObj kvs) k = map_of kvs k"
| "get_prop v k = None"

text \<open>
  ToString, as used by template literals and by \<open>new Error(x)\<close>, for the values the
  handlers meet: a number below \<open>10^21\<close> in magnitude prints in decimal (larger ones print in
  exponent notation, which is not modelled), and an object is taken to have no own
  \<open>toString\<close> or \<open>valueOf\<close> property, so that it prints as "[object Object]".
\<close>

fun digits :: "nat \<Rightarrow> string" where
  "digits n = (if n < 10 then [''0123456789'' ! n]
               else digits (n div 10) @ [''0123456789'' ! (n mod 10)])"

declare digits.simps [simp del]

fun join_comma :: "string list \<Rightarrow> string" where
  "join_comma [] = []"
| "join_comma [x] = x"
| "join_comma (x # y # ys) = x @ '','' @ join_comma (y # ys)"

fun to_string :: "json \<Rightarrow> string" where
  "to_string JNull = ''null''"
| "to_string (JBool b) = (if b then ''true'' else ''false'')"
| "to_string (JNum n) = (if n < 0 then CHR ''-'' # digits (nat (- n)) else digits (nat n))"
| "to_string (JStr s) = s"
| "to_string (JArr xs) = join_comma (map (\<lambda>x. if x = JNull then [] else to_string x) xs)"
| "to_string (JObj kvs) = ''[object Object]''"

definition to_string_u :: "json option \<Rightarrow> string" where
  "to_string_u v = (case v of None \<Rightarrow> ''undefined'' | Some x \<Rightarrow> to_string x)"

text \<open>
  An object literal \<open>{k1: v1, ..., ...rest}\<close> handed to \<open>JSON.stringify\<close>: a property
  whose value is \<open>undefined\<close> is left out, a spread property overwrites an earlier one
  of the same key in place and is appended otherwise. Properties are read by key only; the
  place JavaScript gives an integer-like key (before all others) is not modelled.
\<close>

definition defined_props :: "(string \<times> json option) list \<Rightarrow> (string \<times> json) list" where
  "defined_props kvs = concat (map (\<lambda>(k, v). case v of None \<Rightarrow> [] | Some x \<Rightarrow> [(k, x)]) kvs)"

definition spread :: "(string \<times> json) list \<Rightarrow> (string \<times> json) list \<Rightarrow> (string \<times> json) list" where
  "spread base rest = fold (\<lambda>(k, v) acc. AList.update k v acc) rest base"

text \<open>The outcome of \<open>JSON.parse\<close> on a received text frame.\<close>

datatype parse_result = SyntaxError | Parsed json

datatype ready_state = CONNECTING | OPEN | CLOSING | CLOSED

section \<open>The bridge server (WebSocket + REST relay)\<close>

definition COMMAND_TIMEOUT_MS :: nat where
  "COMMAND_TIMEOUT_MS = 30000"

text \<open>
  A promise is a handle into the list \<open>promises\<close>: \<open>None\<close> while pending, \<open>Some\<close> once settled.
  \<open>new Promise\<close> appends a pending cell, so a new handle is the length of the list.
  A timer is a handle into \<open>timers\<close>: \<open>Some\<close> closure while armed, \<open>None\<close> once cleared or fired.
\<close>

datatype outcome = Resolved "json option" | Rejected string

record pending_entry =
  promise :: nat
  timer :: nat

record timeout_closure =
  t_id :: string
  t_reject :: nat
  t_action :: json

record relay =
  extensionSocket :: "nat option"
  readyState :: "nat \<Rightarrow> ready_state"
  pendingCommands :: "(string \<times> pending_entry) list"
  promises :: "outcome option list"
  timers :: "timeout_closure option list"
  sent :: "(nat \<times> json) list"

definition relay_init :: relay where
  "relay_init = \<lparr> extensionSocket = None, readyState = (\<lambda>s. CONNECTING), pendingCommands = [],
     promises = [], timers = [], sent = [] \<rparr>"

text \<open>\<open>resolve(v)\<close> and \<open>reject(e)\<close> of a promise: only the first call settles it.\<close>

definition settle :: "nat \<Rightarrow> outcome \<Rightarrow> relay \<Rightarrow> relay" where
  "settle p out st =
     (if p < length (promises st) \<and> promises st ! p = None
      then st\<lparr> promises := (promises st)[p := Some out] \<rparr> else st)"

definition clearTimeout :: "nat \<Rightarrow> relay \<Rightarrow> relay" where
  "clearTimeout t st = st\<lparr> timers := (timers st)[t := None] \<rparr>"

definition pending_delete :: "string \<Rightarrow> relay \<Rightarrow> relay" where
  "pending_delete i st = st\<lparr> pendingCommands := AList.delete i (pendingCommands st) \<rparr>"

text \<open>\<open>extensionSocket !== null && extensionSocket.readyState === WebSocket.OPEN\<close>\<close>

definition connected :: "relay \<Rightarrow> bool" where
  "connected st = (case extensionSocket st of None \<Rightarrow> False | Some s \<Rightarrow> readyState st s = OPEN)"

text \<open>\<open>wsServer.on("connection", socket)\<close>\<close>

definition on_connection :: "nat \<Rightarrow> relay \<Rightarrow> relay" where
  "on_connection s st = st\<lparr> extensionSocket := Some s \<rparr>"

text \<open>
  \<open>pendingCommands.has(msg.id)\<close>: the keys of the table are strings, so a value of another
  type is never a key.
\<close>

definition pending_has :: "json option \<Rightarrow> relay \<Rightarrow> bool" where
  "pending_has v st = (case v of Some (JStr i) \<Rightarrow> map_of (pendingCommands st) i \<noteq> None | _ \<Rightarrow> False)"

text \<open>
  \<open>socket.on("message", raw)\<close>. The result is \<open>None\<close> when the handler throws: the frame
  \<open>null\<close> parses, and \<open>msg.type\<close> on it is an uncaught TypeError.
\<close>

definition on_frame :: "json \<Rightarrow> relay \<Rightarrow> relay" where
  "on_frame msg st =
     (if get_prop msg ''type'' = Some (JStr ''ping'') then st
      else if get_prop msg ''type'' = Some (JStr ''extension_ready'') then st
      else if truthy (get_prop msg ''id'') \<and> pending_has (get_prop msg ''id'') st then
        (case get_prop msg ''id'' of
           Some (JStr i) \<Rightarrow>
             (case map_of (pendingCommands st) i of
                Some e \<Rightarrow>
                  let st1 = pending_delete i (clearTimeout (timer e) st) in
                  if truthy (get_prop msg ''success'')
                  then settle (promise e) (Resolved (get_prop msg ''data'')) st1
                  else settle (promise e)
                         (Rejected (if truthy (get_prop msg ''error'')
                                    then to_string_u (get_prop msg ''error'')
                                    else ''Extension command failed'')) st1
              | None \<Rightarrow> st)
         | _ \<Rightarrow> st)
      else st)"

fun on_message :: "parse_result \<Rightarrow> relay \<Rightarrow> relay option" where
  "on_message SyntaxError st = Some st"
| "on_message (Parsed JNull) st = None"
| "on_message (Parsed msg) st = Some (on_frame msg st)"

text \<open>
  \<open>socket.on("close")\<close>: the loop visits every entry of the table once; deleting the entry
  being visited does not disturb the iteration.
\<close>

definition reject_entry :: "string \<Rightarrow> string \<times> pending_entry \<Rightarrow> relay \<Rightarrow> relay" where
  "reject_entry why ie st =
     pending_delete (fst ie) (settle (promise (snd ie)) (Rejected why) (clearTimeout (timer (snd ie)) st))"

definition on_close :: "nat \<Rightarrow> relay \<Rightarrow> relay" where
  "on_close s st =
     (let st1 = (if extensionSocket st = Some s then st\<lparr> extensionSocket := None \<rparr> else st)
      in fold (reject_entry ''Extension disconnected'') (pendingCommands st1) st1)"

text \<open>
  \<open>sendCommand(action, params)\<close>; \<open>uuid\<close> is what \<open>crypto.randomUUID()\<close> returns. The result
  is the handle of the returned promise and the new state.
\<close>

definition sendCommand :: "string \<Rightarrow> json \<Rightarrow> (string \<times> json) list \<Rightarrow> relay \<Rightarrow> nat \<times> relay" where
  "sendCommand uuid action params st =
     (let p = length (promises st);
          not_connected =
            (p, st\<lparr> promises := promises st @ [Some (Rejected ''Chrome extension is not connected'')] \<rparr>)
      in case extensionSocket st of
           None \<Rightarrow> not_connected
         | Some s \<Rightarrow>
             if readyState st s \<noteq> OPEN then not_connected
             else
               let t = length (timers st);
                   payload = JObj (spread [(''id'', JStr uuid), (''action'', action)] params)
               in (p, st\<lparr> promises := promises st @ [None],
                           timers := timers st @ [Some \<lparr> t_id = uuid, t_reject = p, t_action = action \<rparr>],
                           pendingCommands :=
                             AList.update uuid \<lparr> promise = p, timer = t \<rparr> (pendingCommands st),
                           sent := sent st @ [(s, payload)] \<rparr>))"

text \<open>The callback of the \<open>setTimeout\<close> in \<open>sendCommand\<close>, run when timer \<open>t\<close> fires.\<close>

definition timer_fire :: "nat \<Rightarrow> relay \<Rightarrow> relay" where
  "timer_fire t st =
     (if t < length (timers st) then
        (case timers st ! t of
           None \<Rightarrow> st
         | Some c \<Rightarrow>
             settle (t_reject c)
               (Rejected (''Command timed out after '' @ digits (COMMAND_TIMEOUT_MS div 1000)
                            @ ''s: '' @ to_string (t_action c)))
               (pending_delete (t_id c) (st\<lparr> timers := (timers st)[t := None] \<rparr>)))
      else st)"

text \<open>\<open>app.get("/health")\<close>\<close>

definition health :: "relay \<Rightarrow> json" where
  "health st = JObj [(''status'', JStr ''ok''),
                     (''extensionConnected'', JBool (connected st)),
                     (''pendingCommands'', JNum (int (length (pendingCommands st))))]"

text \<open>
  \<open>app.post("/command")\<close>, with \<open>body\<close> the properties of the JSON object \<open>req.body\<close>: either
  the immediate 400 response, or the handle of the promise the handler awaits. \<open>respond\<close> is
  the response sent once that promise settles.
\<close>

datatype http_response = Http nat json

definition post_command ::
  "string \<Rightarrow> (string \<times> json) list \<Rightarrow> relay \<Rightarrow> (http_response + nat) \<times> relay" where
  "post_command uuid body st =
     (case map_of body ''action'' of
        None \<Rightarrow>
          (Inl (Http 400 (JObj [(''success'', JBool False), (''error'', JStr ''Missing 'action' field'')])), st)
      | Some action \<Rightarrow>
          if \<not> truthy (Some action) then
            (Inl (Http 400 (JObj [(''success'', JBool False), (''error'', JStr ''Missing 'action' field'')])), st)
          else
            (case sendCommand uuid action (AList.delete ''action'' body) st of
               (p, st') \<Rightarrow> (Inr p, st')))"

definition SHORTCUT_ACTIONS :: "string list" where
  "SHORTCUT_ACTIONS = [''navigate'', ''click'', ''fill'', ''scrape'', ''screenshot'', ''scroll'',
     ''hover'', ''get_text'', ''get_title'']"

text \<open>\<open>app.post("/" + action)\<close>, registered for each \<open>action\<close> of \<open>SHORTCUT_ACTIONS\<close>.\<close>

definition post_shortcut ::
  "string \<Rightarrow> string \<Rightarrow> (string \<times> json) list \<Rightarrow> relay \<Rightarrow> nat \<times> relay" where
  "post_shortcut action uuid body st = sendCommand uuid (JStr action) body st"

fun starts_with :: "string \<Rightarrow> string \<Rightarrow> bool" where
  "starts_with s [] = True"
| "starts_with [] (c # cs) = False"
| "starts_with (d # ds) (c # cs) = (d = c \<and> starts_with ds cs)"

fun str_includes :: "string \<Rightarrow> string \<Rightarrow> bool" where
  "str_includes [] sub = (sub = [])"
| "str_includes (c # cs) sub = (starts_with (c # cs) sub \<or> str_includes cs sub)"

definition respond :: "outcome \<Rightarrow> http_response" where
  "respond out =
     (case out of
        Resolved data \<Rightarrow>
          Http 200 (JObj (defined_props [(''success'', Some (JBool True)), (''data'', data)]))
      | Rejected message \<Rightarrow>
          Http (if str_includes message ''not connected'' then 503 else 500)
               (JObj [(''success'', JBool False), (''error'', JStr message)]))"

subsection \<open>Runs of the relay\<close>

text \<open>
  What can happen to the server, one event at a time: the WebSocket library reports a new
  connection, a frame or a close, or changes a socket's \<open>readyState\<close>; a timeout fires; a
  REST handler calls \<open>sendCommand\<close>. A run stops (\<open>None\<close>) when a handler throws.
\<close>

datatype event =
    Connection nat
  | Message nat parse_result
  | Close nat
  | SetReadyState nat ready_state
  | TimerFire nat
  | SendCommand string json "(string \<times> json) list"

fun step :: "event \<Rightarrow> relay \<Rightarrow> relay option" where
  "step (Connection s) st = Some (on_connection s st)"
| "step (Message s raw) st = on_message raw st"
| "step (Close s) st = Some (on_close s st)"
| "step (SetReadyState s r) st = Some (st\<lparr> readyState := (readyState st)(s := r) \<rparr>)"
| "step (TimerFire t) st = Some (timer_fire t st)"
| "step (SendCommand uuid action params) st = Some (snd (sendCommand uuid action params st))"

fun run :: "event list \<Rightarrow> relay \<Rightarrow> relay option" where
  "run [] st = Some st"
| "run (ev # evs) st = (case step ev st of None \<Rightarrow> None | Some st' \<Rightarrow> run evs st')"

text \<open>
  Between the submission of the command with correlation id \<open>i\<close> and deadline timer \<open>t\<close>
  and the arrival of its reply, an event is harmless when it is not the deadline firing, not a
  close of a peer connection, not itself a frame carrying the id \<open>i\<close>, and not a submission
  that draws the same id again.
\<close>

fun harmless :: "string \<Rightarrow> nat \<Rightarrow> event \<Rightarrow> bool" where
  "harmless i t (Connection s) = True"
| "harmless i t (Message s SyntaxError) = True"
| "harmless i t (Message s (Parsed m)) = (get_prop m ''id'' \<noteq> Some (JStr i))"
| "harmless i t (Close s) = False"
| "harmless i t (SetReadyState s r) = True"
| "harmless i t (TimerFire t') = (t' \<noteq> t)"
| "harmless i t (SendCommand uuid action params) = (uuid \<noteq> i)"

text \<open>The id \<open>i\<close> is not the id of a request whose deadline timer is still armed.\<close>

definition fresh_id :: "string \<Rightarrow> relay \<Rightarrow> bool" where
  "fresh_id i st = list_all (\<lambda>c. case c of None \<Rightarrow> True | Some c \<Rightarrow> t_id c \<noteq> i) (timers st)"

definition obj_keys :: "json \<Rightarrow> string list" where
  "obj_keys v = (case v of JObj kvs \<Rightarrow> map fst kvs | _ \<Rightarrow> [])"

text \<open>
  The invariant of the pending table: every armed timer rejects a promise that is still
  pending; every entry of the table owns an armed timer whose callback carries the entry's id
  and promise; no two armed timers reject the same promise; the keys of the table are distinct.
\<close>

definition armed :: "relay \<Rightarrow> nat \<Rightarrow> timeout_closure \<Rightarrow> bool" where
  "armed st t c = (t < length (timers st) \<and> timers st ! t = Some c)"

definition relay_inv :: "relay \<Rightarrow> bool" where
  "relay_inv st =
     ((\<forall>t c. armed st t c \<longrightarrow> t_reject c < length (promises st) \<and> promises st ! t_reject c = None) \<and>
      (\<forall>i e. map_of (pendingCommands st) i = Some e \<longrightarrow>
             (\<exists>c. armed st (timer e) c \<and> t_id c = i \<and> t_reject c = promise e)) \<and>
      (\<forall>t1 c1 t2 c2. armed st t1 c1 \<and> armed st t2 c2 \<and> t_reject c1 = t_reject c2 \<longrightarrow> t1 = t2) \<and>
      distinct (map fst (pendingCommands st)))"

section \<open>The extension's service worker\<close>

text \<open>
  The repository holds the service worker in two variants: one reconnects with a timer and a
  doubling delay, the other with a periodic alarm. Command routing, \<open>navigate\<close>, \<open>send\<close> and
  the \<open>onmessage\<close> handler are the same text in both; they are modelled once, over the part
  of the state both variants have.
\<close>

record ext =
  ws :: "nat option"
  ws_readyState :: "nat \<Rightarrow> ready_state"
  ws_created :: nat
  ws_sent :: "(nat \<times> json) list"

text \<open>\<open>ws && ws.readyState === WebSocket.OPEN\<close>\<close>

definition ext_open :: "'a ext_scheme \<Rightarrow> bool" where
  "ext_open st = (case ws st of None \<Rightarrow> False | Some s \<Rightarrow> ws_readyState st s = OPEN)"

definition send :: "json \<Rightarrow> 'a ext_scheme \<Rightarrow> 'a ext_scheme" where
  "send data st =
     (case ws st of
        None \<Rightarrow> st
      | Some s \<Rightarrow> if ws_readyState st s = OPEN then st\<lparr> ws_sent := ws_sent st @ [(s, data)] \<rparr> else st)"

text \<open>\<open>new WebSocket(WS_URL)\<close>: the next socket, CONNECTING, assigned to \<open>ws\<close>.\<close>

definition new_WebSocket :: "'a ext_scheme \<Rightarrow> 'a ext_scheme" where
  "new_WebSocket st =
     st\<lparr> ws := Some (ws_created st),
         ws_readyState := (ws_readyState st)(ws_created st := CONNECTING),
         ws_created := Suc (ws_created st) \<rparr>"

text \<open>\<open>ws && (ws.readyState === WebSocket.OPEN || ws.readyState === WebSocket.CONNECTING)\<close>\<close>

definition ext_busy :: "'a ext_scheme \<Rightarrow> bool" where
  "ext_busy st =
     (case ws st of None \<Rightarrow> False
      | Some s \<Rightarrow> ws_readyState st s = OPEN \<or> ws_readyState st s = CONNECTING)"

subsection \<open>Command routing\<close>

type_synonym params = "(string \<times> json) list"

text \<open>
  \<open>handleCommand\<close> either throws (its promise rejects with the message) or calls one of four
  handlers, whose result depends on the browser.
\<close>

datatype handler =
    Navigate params
  | Screenshot params
  | GetTitle params
  | ForwardToContentScript string params

definition handleCommand :: "json option \<Rightarrow> params \<Rightarrow> string + handler" where
  "handleCommand action ps =
     (if action = Some (JStr ''navigate'') then Inr (Navigate ps)
      else if action = Some (JStr ''screenshot'') then Inr (Screenshot ps)
      else if action = Some (JStr ''get_title'') then Inr (GetTitle ps)
      else if action = Some (JStr ''click'') then Inr (ForwardToContentScript ''click'' ps)
      else if action = Some (JStr ''fill'') then Inr (ForwardToContentScript ''fill'' ps)
      else if action = Some (JStr ''scrape'') then Inr (ForwardToContentScript ''scrape'' ps)
      else if action = Some (JStr ''scroll'') then Inr (ForwardToContentScript ''scroll'' ps)
      else if action = Some (JStr ''hover'') then Inr (ForwardToContentScript ''hover'' ps)
      else if action = Some (JStr ''get_text'') then Inr (ForwardToContentScript ''get_text'' ps)
      else Inl (''Unknown action: '' @ to_string_u action))"

text \<open>
  \<open>navigate(params)\<close> up to its first call into the browser: an error thrown before it, or
  the call that receives \<open>targetUrl\<close>. \<open>activeTab\<close> is the id of the tab that
  \<open>chrome.tabs.query({active: true, currentWindow: true})\<close> finds, if any.
\<close>

datatype tabs_call = TabsUpdate json string | TabsCreate string

definition targetUrl :: "string \<Rightarrow> string" where
  "targetUrl url = (if starts_with url ''http'' then url else ''https://'' @ url)"

definition navigate :: "params \<Rightarrow> json option \<Rightarrow> string + tabs_call" where
  "navigate ps activeTab =
     (if \<not> truthy (map_of ps ''url'') then Inl ''navigate requires a 'url' parameter''
      else case map_of ps ''url'' of
             Some (JStr url) \<Rightarrow>
               (case (if truthy (map_of ps ''tabId'') then map_of ps ''tabId'' else activeTab) of
                  Some tab \<Rightarrow> Inr (TabsUpdate tab (targetUrl url))
                | None \<Rightarrow> Inr (TabsCreate (targetUrl url)))
           | _ \<Rightarrow> Inl ''url.startsWith is not a function'')"

subsection \<open>The message handler\<close>

text \<open>
  \<open>ws.onmessage\<close> runs in two parts. On receipt it parses and destructures the frame and calls
  \<open>handleCommand\<close>; nothing is sent yet, except for a frame that does not parse. The frame
  \<open>null\<close> parses, and destructuring it throws inside the async handler: nothing is sent at all.
  When the command completes, the reply goes through \<open>send\<close>, in the state of that moment.
  The rest properties of a frame that is not an object are never read (its action is
  \<open>undefined\<close>, which \<open>handleCommand\<close> rejects) and are left empty.
\<close>

record dispatched =
  d_id :: "json option"
  d_call :: "string + handler"

definition rest_params :: "json \<Rightarrow> params" where
  "rest_params msg =
     (case msg of JObj kvs \<Rightarrow> AList.delete ''action'' (AList.delete ''id'' kvs) | _ \<Rightarrow> [])"

fun onmessage :: "parse_result \<Rightarrow> 'a ext_scheme \<Rightarrow> 'a ext_scheme \<times> dispatched option" where
  "onmessage SyntaxError st =
     (send (JObj [(''success'', JBool False), (''error'', JStr ''Invalid JSON from bridge server'')]) st,
      None)"
| "onmessage (Parsed JNull) st = (st, None)"
| "onmessage (Parsed msg) st =
     (st, Some \<lparr> d_id = get_prop msg ''id'',
                 d_call = handleCommand (get_prop msg ''action'') (rest_params msg) \<rparr>)"

text \<open>
  \<open>browser\<close> is what the handler's promise settles to when \<open>handleCommand\<close> called one:
  \<open>Inr\<close> its result, \<open>Inl\<close> the message of the error it threw.
\<close>

definition command_outcome :: "dispatched \<Rightarrow> string + json option \<Rightarrow> string + json option" where
  "command_outcome d browser = (case d_call d of Inl message \<Rightarrow> Inl message | Inr h \<Rightarrow> browser)"

definition reply_frame :: "json option \<Rightarrow> string + json option \<Rightarrow> json" where
  "reply_frame i out =
     (case out of
        Inr result \<Rightarrow>
          JObj (defined_props [(''id'', i), (''success'', Some (JBool True)), (''data'', result)])
      | Inl message \<Rightarrow>
          JObj (defined_props [(''id'', i), (''success'', Some (JBool False)),
                               (''error'', Some (JStr message))]))"

definition onmessage_done :: "dispatched \<Rightarrow> string + json option \<Rightarrow> 'a ext_scheme \<Rightarrow> 'a ext_scheme" where
  "onmessage_done d browser st = send (reply_frame (d_id d) (command_outcome d browser)) st"

subsection \<open>Reconnection with a timer (first variant)\<close>

definition RECONNECT_BASE_MS :: nat where
  "RECONNECT_BASE_MS = 1000"

definition RECONNECT_MAX_MS :: nat where
  "RECONNECT_MAX_MS = 30000"

text \<open>
  \<open>reconnectTimer\<close> is the delay the armed timer was set with, \<open>None\<close> when no timer is armed.
\<close>

record timer_ext = ext +
  reconnectDelay :: nat
  reconnectTimer :: "nat option"

definition timer_ext_init :: timer_ext where
  "timer_ext_init = \<lparr> ws = None, ws_readyState = (\<lambda>s. CLOSED), ws_created = 0, ws_sent = [],
     reconnectDelay = RECONNECT_BASE_MS, reconnectTimer = None \<rparr>"

definition scheduleReconnect :: "timer_ext \<Rightarrow> timer_ext" where
  "scheduleReconnect st = st\<lparr> reconnectTimer := Some (reconnectDelay st) \<rparr>"

text \<open>\<open>throws\<close>: the WebSocket constructor throws.\<close>

definition connect :: "bool \<Rightarrow> timer_ext \<Rightarrow> timer_ext" where
  "connect throws st =
     (if ext_busy st then st
      else if throws then scheduleReconnect st
      else new_WebSocket st)"

definition extension_ready :: "string \<Rightarrow> json" where
  "extension_ready version = JObj [(''type'', JStr ''extension_ready''), (''version'', JStr version)]"

definition onopen :: "string \<Rightarrow> timer_ext \<Rightarrow> timer_ext" where
  "onopen version st = send (extension_ready version) (st\<lparr> reconnectDelay := RECONNECT_BASE_MS \<rparr>)"

definition onclose :: "timer_ext \<Rightarrow> timer_ext" where
  "onclose st = scheduleReconnect (st\<lparr> ws := None \<rparr>)"

text \<open>The callback of the reconnect timer, run when the armed timer fires.\<close>

definition reconnect_fired :: "bool \<Rightarrow> timer_ext \<Rightarrow> timer_ext" where
  "reconnect_fired throws st =
     (case reconnectTimer st of
        None \<Rightarrow> st
      | Some d \<Rightarrow>
          connect throws
            (st\<lparr> reconnectTimer := None,
                reconnectDelay := min (reconnectDelay st * 2) RECONNECT_MAX_MS \<rparr>))"

text \<open>
  The browser opens socket \<open>s\<close> and calls \<open>onopen\<close>; the browser closes socket \<open>s\<close> and
  calls \<open>onclose\<close>. A failed reconnection attempt is the timer firing, \<open>connect\<close> creating a
  socket, and that socket closing without having opened.
\<close>

definition socket_opened :: "string \<Rightarrow> nat \<Rightarrow> timer_ext \<Rightarrow> timer_ext" where
  "socket_opened version s st = onopen version (st\<lparr> ws_readyState := (ws_readyState st)(s := OPEN) \<rparr>)"

definition socket_closed :: "nat \<Rightarrow> timer_ext \<Rightarrow> timer_ext" where
  "socket_closed s st = onclose (st\<lparr> ws_readyState := (ws_readyState st)(s := CLOSED) \<rparr>)"

definition failed_attempt :: "timer_ext \<Rightarrow> timer_ext" where
  "failed_attempt st =
     (let st1 = reconnect_fired False st
      in case ws st1 of None \<Rightarrow> st1 | Some s \<Rightarrow> socket_closed s st1)"

subsection \<open>Reconnection with an alarm (second variant)\<close>

text \<open>An alarm as \<open>chrome.alarms.create\<close> receives it; times are in minutes.\<close>

record alarm =
  delayInMinutes :: "rat option"
  periodInMinutes :: "rat option"

datatype alarm_name = RECONNECT_ALARM | KEEPALIVE_ALARM

record alarm_ext = ext +
  reconnect_alarm :: "alarm option"
  keepalive_alarm :: "alarm option"

definition alarm_ext_init :: alarm_ext where
  "alarm_ext_init = \<lparr> ws = None, ws_readyState = (\<lambda>s. CLOSED), ws_created = 0, ws_sent = [],
     reconnect_alarm = None, keepalive_alarm = None \<rparr>"

definition ensureReconnectAlarm :: "alarm_ext \<Rightarrow> alarm_ext" where
  "ensureReconnectAlarm st =
     (case reconnect_alarm st of
        None \<Rightarrow> st\<lparr> reconnect_alarm :=
                      Some \<lparr> delayInMinutes = Some (8 / 100), periodInMinutes = Some (8 / 100) \<rparr> \<rparr>
      | Some a \<Rightarrow> st)"

definition connect_a :: "bool \<Rightarrow> alarm_ext \<Rightarrow> alarm_ext" where
  "connect_a throws st =
     (if ext_busy st then st
      else if throws then ensureReconnectAlarm st
      else new_WebSocket st)"

definition onopen_a :: "string \<Rightarrow> alarm_ext \<Rightarrow> alarm_ext" where
  "onopen_a version st =
     send (extension_ready version)
       (st\<lparr> reconnect_alarm := None,
           keepalive_alarm := Some \<lparr> delayInMinutes = None, periodInMinutes = Some (4 / 10) \<rparr> \<rparr>)"

definition onclose_a :: "alarm_ext \<Rightarrow> alarm_ext" where
  "onclose_a st = ensureReconnectAlarm (st\<lparr> ws := None, keepalive_alarm := None \<rparr>)"

text \<open>\<open>chrome.alarms.onAlarm\<close>\<close>

definition onAlarm :: "alarm_name \<Rightarrow> alarm_ext \<Rightarrow> alarm_ext" where
  "onAlarm name st =
     (let st1 = (if name = RECONNECT_ALARM then connect_a False st else st)
      in if name = KEEPALIVE_ALARM then
           (if ext_open st1 then send (JObj [(''type'', JStr ''ping'')]) st1
            else ensureReconnectAlarm (st1\<lparr> keepalive_alarm := None \<rparr>))
         else st1)"

definition socket_opened_a :: "string \<Rightarrow> nat \<Rightarrow> alarm_ext \<Rightarrow> alarm_ext" where
  "socket_opened_a version s st =
     onopen_a version (st\<lparr> ws_readyState := (ws_readyState st)(s := OPEN) \<rparr>)"

definition socket_closed_a :: "nat \<Rightarrow> alarm_ext \<Rightarrow> alarm_ext" where
  "socket_closed_a s st = onclose_a (st\<lparr> ws_readyState := (ws_readyState st)(s := CLOSED) \<rparr>)"

definition failed_attempt_a :: "alarm_ext \<Rightarrow> alarm_ext" where
  "failed_attempt_a st =
     (let st1 = onAlarm RECONNECT_ALARM st
      in case ws st1 of None \<Rightarrow> st1 | Some s \<Rightarrow> socket_closed_a s st1)"

text \<open>
  The wait before the next reconnection attempt, in milliseconds: what the armed timer was
  set with, and the period of the reconnect alarm.
\<close>

definition timer_wait_ms :: "timer_ext \<Rightarrow> rat option" where
  "timer_wait_ms st = map_option of_nat (reconnectTimer st)"

definition alarm_wait_ms :: "alarm_ext \<Rightarrow> rat option" where
  "alarm_wait_ms st =
     (case reconnect_alarm st of None \<Rightarrow> None
      | Some a \<Rightarrow> map_option (\<lambda>m. m * 60000) (periodInMinutes a))"

text \<open>The backoff the specification states: \<open>min(floor * 2^k, ceiling)\<close>.\<close>

definition spec_backoff_ms :: "nat \<Rightarrow> nat" where
  "spec_backoff_ms k = min (RECONNECT_BASE_MS * 2 ^ k) RECONNECT_MAX_MS"

section \<open>The content script's element resolver\<close>

text \<open>
  DOM strings are sequences of UTF-16 code units. \<open>trim\<close> removes the white space and line
  terminators of ECMAScript from both ends.
\<close>

type_synonym ustring = "nat list"

definition is_white_space :: "nat \<Rightarrow> bool" where
  "is_white_space c =
     (c \<in> {9, 10, 11, 12, 13, 32, 160, 5760, 8232, 8233, 8239, 8287, 12288, 65279}
      \<or> (8192 \<le> c \<and> c \<le> 8202))"

definition trim :: "ustring \<Rightarrow> ustring" where
  "trim s = rev (dropWhile is_white_space (rev (dropWhile is_white_space s)))"

text \<open>
  The document as \<open>resolveElement\<close> uses it: \<open>document.querySelector\<close>; the
  \<open>singleNodeValue\<close> of \<open>document.evaluate\<close> with \<open>FIRST_ORDERED_NODE_TYPE\<close>; the elements
  below \<open>document.body\<close> in document order, as the TreeWalker with \<open>SHOW_ELEMENT\<close> yields
  them; and \<open>textContent\<close>. A query either throws or returns a node or \<open>null\<close>. The
  document has a body, as every page the content script is injected into has.
\<close>

datatype 'a dom_result = Throws | Returns 'a

record 'n document =
  querySelector :: "ustring \<Rightarrow> 'n option dom_result"
  evaluate_first :: "ustring \<Rightarrow> 'n option dom_result"
  body_elements :: "'n list"
  textContent :: "'n \<Rightarrow> ustring"

text \<open>The \<open>while ((node = walk.nextNode()))\<close> loop over the remaining elements.\<close>

fun text_walk :: "('n \<Rightarrow> ustring) \<Rightarrow> ustring \<Rightarrow> 'n list \<Rightarrow> 'n option" where
  "text_walk txt selector [] = None"
| "text_walk txt selector (node # nodes) =
     (if trim (txt node) = trim selector then Some node else text_walk txt selector nodes)"

definition resolveElement :: "'n document \<Rightarrow> ustring \<Rightarrow> 'n option" where
  "resolveElement doc selector =
     (if selector = [] then None
      else case (case querySelector doc selector of
                   Returns (Some el) \<Rightarrow> Some el | Returns None \<Rightarrow> None | Throws \<Rightarrow> None) of
             Some el \<Rightarrow> Some el
           | None \<Rightarrow>
               (case (case evaluate_first doc selector of
                        Returns (Some n) \<Rightarrow> Some n | Returns None \<Rightarrow> None | Throws \<Rightarrow> None) of
                  Some n \<Rightarrow> Some n
                | None \<Rightarrow> text_walk (textContent doc) selector (body_elements doc)))"

text \<open>
  The strategy in the words of the specification: a structural match, an error counting as
  no match; then a path-query match, likewise; then the first element in document order whose
  trimmed text equals the trimmed locator; else not found.
\<close>

definition css_match :: "'n document \<Rightarrow> ustring \<Rightarrow> 'n option" where
  "css_match doc locator = (case querySelector doc locator of Throws \<Rightarrow> None | Returns r \<Rightarrow> r)"

definition xpath_match :: "'n document \<Rightarrow> ustring \<Rightarrow> 'n option" where
  "xpath_match doc locator = (case evaluate_first doc locator of Throws \<Rightarrow> None | Returns r \<Rightarrow> r)"

definition text_match :: "'n document \<Rightarrow> ustring \<Rightarrow> 'n option" where
  "text_match doc locator =
     find (\<lambda>n. trim (textContent doc n) = trim locator) (body_elements doc)"

definition spec_resolve :: "'n document \<Rightarrow> ustring \<Rightarrow> 'n option" where
  "spec_resolve doc locator =
     (case css_match doc locator of
        Some e \<Rightarrow> Some e
      | None \<Rightarrow> (case xpath_match doc locator of
                   Some e \<Rightarrow> Some e
                 | None \<Rightarrow> text_match doc locator))"

text \<open>Code units of an ASCII literal.\<close>

definition ustr :: "string \<Rightarrow> ustring" where
  "ustr s = map (of_char :: char \<Rightarrow> nat) s"

section \<open>Concrete states and frames\<close>

definition demo_connected :: relay where
  "demo_connected = \<lparr> extensionSocket = Some 0, readyState = (\<lambda>s. CONNECTING)(0 := OPEN),
     pendingCommands = [], promises = [], timers = [], sent = [] \<rparr>"

definition demo_reply :: json where
  "demo_reply = JObj [(''id'', JStr ''id-1''), (''success'', JBool True),
                      (''data'', JObj [(''title'', JStr ''Home'')])]"

definition demo_between :: "event list" where
  "demo_between = [Message 0 (Parsed (JObj [(''type'', JStr ''ping'')])),
                   SendCommand ''id-2'' (JStr ''click'') [(''selector'', JStr ''#x'')],
                   Message 0 (Parsed (JObj [(''id'', JStr ''id-2''), (''success'', JBool False)]))]"

definition demo_two_pending :: "event list" where
  "demo_two_pending = [SetReadyState 0 OPEN, Connection 0,
     SendCommand ''id-1'' (JStr ''get_title'') [],
     SendCommand ''id-2'' (JStr ''click'') [(''selector'', JStr ''#x'')]]"

definition demo_late_reply :: json where
  "demo_late_reply = JObj [(''id'', JStr ''id-1''), (''success'', JBool True),
                           (''data'', JStr ''late'')]"

definition demo_closing :: "event list" where
  "demo_closing = [SetReadyState 0 OPEN, Connection 0, SetReadyState 0 CLOSING]"

definition demo_two_sockets :: "event list" where
  "demo_two_sockets = [SetReadyState 0 OPEN, Connection 0, SetReadyState 1 OPEN, Connection 1,
     SendCommand ''id-1'' (JStr ''get_title'') []]"

definition demo_doc :: "nat document" where
  "demo_doc = \<lparr>
     querySelector = (\<lambda>sel. if sel = ustr ''#x'' then Returns (Some 0)
                            else if sel = ustr ''Hello'' \<or> sel = ustr ''#missing'' then Returns None
                            else Throws),
     evaluate_first = (\<lambda>sel. if sel = ustr ''//div[@id='x']'' then Returns (Some 0)
                             else if sel = ustr ''Hello'' then Returns None
                             else Throws),
     body_elements = [0, 1],
     textContent = (\<lambda>n. if n = 0 then ustr ''Hello'' else []) \<rparr>"

definition demo_command :: json where
  "demo_command = JObj [(''id'', JStr ''id-1''), (''action'', JStr ''get_title'')]"

definition demo_dispatched :: dispatched where
  "demo_dispatched = \<lparr> d_id = Some (JStr ''id-1''), d_call = Inr (GetTitle []) \<rparr>"

definition demo_title :: json where
  "demo_title = JObj [(''title'', JStr ''Home''), (''url'', JStr ''https://example.com/''),
                      (''tabId'', JNum 7)]"

definition demo_open_ext :: timer_ext where
  "demo_open_ext = socket_opened ''1.0.0'' 0 (connect False timer_ext_init)"

section \<open>Predicates of the proofs\<close>

text \<open>
  The timer variant is waiting: no socket, and a timer armed with the current delay. The alarm
  variant is polling: no socket, and the reconnect alarm set.
\<close>

definition waiting :: "nat \<Rightarrow> timer_ext \<Rightarrow> bool" where
  "waiting d st = (ws st = None \<and> reconnectDelay st = d \<and> reconnectTimer st = Some d)"

definition polling :: "alarm_ext \<Rightarrow> bool" where
  "polling st = (ws st = None \<and>
     reconnect_alarm st = Some \<lparr> delayInMinutes = Some (8 / 100), periodInMinutes = Some (8 / 100) \<rparr>)"

section \<open>The invariant of the pending table, proved\<close>

text \<open>
  The request with id \<open>i\<close>, promise \<open>p\<close> and timer \<open>t\<close> is outstanding: it is in the table,
  and no other armed timer carries its id.
\<close>

definition outstanding :: "string \<Rightarrow> nat \<Rightarrow> nat \<Rightarrow> relay \<Rightarrow> bool" where
  "outstanding i p t st =
     (map_of (pendingCommands st) i = Some \<lparr> promise = p, timer = t \<rparr> \<and>
      (\<forall>t' c'. armed st t' c' \<and> t_id c' = i \<longrightarrow> t' = t))"

lemma digits_30: "digits (COMMAND_TIMEOUT_MS div 1000) = ''30''"
  by (simp add: COMMAND_TIMEOUT_MS_def digits.simps [of 30] digits.simps [of 3])

lemma settle_simps [simp]:
  "timers (settle p out st) = timers st"
  "pendingCommands (settle p out st) = pendingCommands st"
  "sent (settle p out st) = sent st"
  "extensionSocket (settle p out st) = extensionSocket st"
  "readyState (settle p out st) = readyState st"
  "length (promises (settle p out st)) = length (promises st)"
  by (simp_all add: settle_def)

lemma clearTimeout_simps [simp]:
  "timers (clearTimeout t st) = (timers st)[t := None]"
  "pendingCommands (clearTimeout t st) = pendingCommands st"
  "promises (clearTimeout t st) = promises st"
  "sent (clearTimeout t st) = sent st"
  "extensionSocket (clearTimeout t st) = extensionSocket st"
  "readyState (clearTimeout t st) = readyState st"
  by (simp_all add: clearTimeout_def)

lemma pending_delete_simps [simp]:
  "timers (pending_delete i st) = timers st"
  "pendingCommands (pending_delete i st) = AList.delete i (pendingCommands st)"
  "promises (pending_delete i st) = promises st"
  "sent (pending_delete i st) = sent st"
  "extensionSocket (pending_delete i st) = extensionSocket st"
  "readyState (pending_delete i st) = readyState st"
  by (simp_all add: pending_delete_def)

lemma promises_settle:
  "promises (settle p out st) ! q =
     (if q = p \<and> p < length (promises st) \<and> promises st ! p = None then Some out else promises st ! q)"
  by (simp add: settle_def)

lemma settled_stays: "promises st ! q = Some o1 \<Longrightarrow> promises (settle p out st) ! q = Some o1"
  by (auto simp: promises_settle)

lemma armed_retire:
  "armed (settle p out (pending_delete i (clearTimeout t st))) t' c' \<longleftrightarrow> (t' \<noteq> t \<and> armed st t' c')"
  by (cases "t' = t") (auto simp: armed_def)

lemma inv_retire:
  assumes inv: "relay_inv st" and a: "armed st t c"
  shows "relay_inv (settle (t_reject c) out (pending_delete (t_id c) (clearTimeout t st)))"
proof -
  let ?st = "settle (t_reject c) out (pending_delete (t_id c) (clearTimeout t st))"
  from inv have J1: "\<And>t c. armed st t c \<Longrightarrow> t_reject c < length (promises st) \<and> promises st ! t_reject c = None"
    and J2: "\<And>i e. map_of (pendingCommands st) i = Some e \<Longrightarrow>
               \<exists>c. armed st (timer e) c \<and> t_id c = i \<and> t_reject c = promise e"
    and J3: "\<And>t1 c1 t2 c2. armed st t1 c1 \<Longrightarrow> armed st t2 c2 \<Longrightarrow> t_reject c1 = t_reject c2 \<Longrightarrow> t1 = t2"
    and J4: "distinct (map fst (pendingCommands st))"
    unfolding relay_inv_def by blast+
  have K1: "t_reject c' < length (promises ?st) \<and> promises ?st ! t_reject c' = None" if "armed ?st t' c'" for t' c'
  proof -
    from that have n: "t' \<noteq> t" and a': "armed st t' c'" by (simp_all add: armed_retire)
    from J3 [OF a' a] n have "t_reject c' \<noteq> t_reject c" by blast
    with J1 [OF a'] show ?thesis by (simp add: promises_settle)
  qed
  have K2: "\<exists>c'. armed ?st (timer e) c' \<and> t_id c' = i \<and> t_reject c' = promise e"
    if "map_of (pendingCommands ?st) i = Some e" for i e
  proof -
    from that have ne: "i \<noteq> t_id c" and m: "map_of (pendingCommands st) i = Some e"
      by (auto simp: delete_conv split: if_splits)
    from J2 [OF m] obtain c' where c': "armed st (timer e) c'" "t_id c' = i" "t_reject c' = promise e" by blast
    have "timer e \<noteq> t"
    proof
      assume "timer e = t"
      with c' a have "c' = c" by (simp add: armed_def)
      with c' ne show False by simp
    qed
    with c' show ?thesis by (auto simp: armed_retire)
  qed
  have K3: "t1 = t2" if "armed ?st t1 c1" "armed ?st t2 c2" "t_reject c1 = t_reject c2" for t1 c1 t2 c2
    using that J3 by (auto simp: armed_retire)
  have K4: "distinct (map fst (pendingCommands ?st))"
    using J4 by (simp add: distinct_delete)
  show ?thesis unfolding relay_inv_def using K1 K2 K3 K4 by blast
qed


lemma inv_init: "relay_inv relay_init"
  by (simp add: relay_inv_def relay_init_def armed_def)

lemma inv_entry_armed:
  assumes "relay_inv st" and "map_of (pendingCommands st) i = Some e"
  obtains c where "armed st (timer e) c" and "t_id c = i" and "t_reject c = promise e"
  using assms unfolding relay_inv_def by blast

lemma inv_armed_pending:
  assumes "relay_inv st" and "armed st t c"
  shows "t_reject c < length (promises st)" and "promises st ! t_reject c = None"
  using assms unfolding relay_inv_def by blast+

lemma inv_on_frame:
  assumes inv: "relay_inv st"
  shows "relay_inv (on_frame m st)"
proof (cases "get_prop m ''id''")
  case None
  then show ?thesis using inv by (simp add: on_frame_def)
next
  case (Some v)
  show ?thesis
  proof (cases v)
    case (JStr i)
    show ?thesis
    proof (cases "map_of (pendingCommands st) i")
      case None
      then show ?thesis using inv Some JStr by (simp add: on_frame_def pending_has_def)
    next
      case (Some e)
      from inv_entry_armed [OF inv Some] obtain c where
        c: "armed st (timer e) c" "t_id c = i" "t_reject c = promise e" by blast
      have "relay_inv (settle (promise e) out (pending_delete i (clearTimeout (timer e) st)))" for out
        using inv_retire [OF inv c(1), of out] c by simp
      then show ?thesis
        using inv Some JStr \<open>get_prop m ''id'' = Some v\<close>
        by (simp add: on_frame_def pending_has_def Let_def)
    qed
  qed (use inv Some in \<open>simp_all add: on_frame_def pending_has_def\<close>)
qed

lemma inv_timer_fire:
  assumes inv: "relay_inv st"
  shows "relay_inv (timer_fire t st)"
proof (cases "t < length (timers st)")
  case False
  then show ?thesis using inv by (simp add: timer_fire_def)
next
  case True
  show ?thesis
  proof (cases "timers st ! t")
    case None
    then show ?thesis using inv True by (simp add: timer_fire_def)
  next
    case (Some c)
    with True have "armed st t c" by (simp add: armed_def)
    from inv_retire [OF inv this] show ?thesis
      using True Some by (simp add: timer_fire_def clearTimeout_def)
  qed
qed

lemma reject_entry_eq:
  "reject_entry why (i, e) st =
     settle (promise e) (Rejected why) (pending_delete i (clearTimeout (timer e) st))"
  by (simp add: reject_entry_def settle_def pending_delete_def clearTimeout_def)

lemma inv_reject_entry:
  assumes inv: "relay_inv st" and m: "map_of (pendingCommands st) i = Some e"
  shows "relay_inv (reject_entry why (i, e) st)"
proof -
  from inv_entry_armed [OF inv m] obtain c where
    c: "armed st (timer e) c" "t_id c = i" "t_reject c = promise e" by blast
  from inv_retire [OF inv c(1), of "Rejected why"] c show ?thesis
    by (simp add: reject_entry_eq)
qed

lemma sendCommand_not_connected_eq:
  "\<not> connected st \<Longrightarrow>
   sendCommand uuid action params st =
     (length (promises st),
      st\<lparr> promises := promises st @ [Some (Rejected ''Chrome extension is not connected'')] \<rparr>)"
  by (simp add: sendCommand_def connected_def Let_def split: option.splits)

lemma sendCommand_connected_eq:
  "extensionSocket st = Some s \<Longrightarrow> readyState st s = OPEN \<Longrightarrow>
   sendCommand uuid action params st =
     (length (promises st),
      st\<lparr> promises := promises st @ [None],
          timers := timers st @ [Some \<lparr> t_id = uuid, t_reject = length (promises st), t_action = action \<rparr>],
          pendingCommands :=
            AList.update uuid \<lparr> promise = length (promises st), timer = length (timers st) \<rparr> (pendingCommands st),
          sent := sent st @ [(s, JObj (spread [(''id'', JStr uuid), (''action'', action)] params))] \<rparr>)"
  by (simp add: sendCommand_def Let_def)

lemma inv_append_promise:
  assumes inv: "relay_inv st"
  shows "relay_inv (st\<lparr> promises := promises st @ [x] \<rparr>)"
proof -
  let ?st = "st\<lparr> promises := promises st @ [x] \<rparr>"
  have arm: "armed ?st t c \<longleftrightarrow> armed st t c" for t c
    by (simp add: armed_def)
  have "t_reject c < length (promises ?st) \<and> promises ?st ! t_reject c = None" if "armed st t c" for t c
    using inv_armed_pending [OF inv that] by (simp add: nth_append)
  then show ?thesis
    using inv unfolding relay_inv_def arm by simp
qed

lemma inv_sendCommand:
  assumes inv: "relay_inv st"
  shows "relay_inv (snd (sendCommand uuid action params st))"
proof (cases "connected st")
  case False
  then show ?thesis using inv_append_promise [OF inv] by (simp add: sendCommand_not_connected_eq)
next
  case True
  then obtain s where s: "extensionSocket st = Some s" "readyState st s = OPEN"
    by (auto simp: connected_def split: option.splits)
  let ?p = "length (promises st)" and ?t = "length (timers st)"
  let ?c = "\<lparr> t_id = uuid, t_reject = ?p, t_action = action \<rparr>"
  let ?st = "st\<lparr> promises := promises st @ [None], timers := timers st @ [Some ?c],
          pendingCommands := AList.update uuid \<lparr> promise = ?p, timer = ?t \<rparr> (pendingCommands st),
          sent := sent st @ [(s, JObj (spread [(''id'', JStr uuid), (''action'', action)] params))] \<rparr>"
  from inv have J1: "\<And>t c. armed st t c \<Longrightarrow> t_reject c < length (promises st) \<and> promises st ! t_reject c = None"
    and J2: "\<And>i e. map_of (pendingCommands st) i = Some e \<Longrightarrow>
               \<exists>c. armed st (timer e) c \<and> t_id c = i \<and> t_reject c = promise e"
    and J3: "\<And>t1 c1 t2 c2. armed st t1 c1 \<Longrightarrow> armed st t2 c2 \<Longrightarrow> t_reject c1 = t_reject c2 \<Longrightarrow> t1 = t2"
    and J4: "distinct (map fst (pendingCommands st))"
    unfolding relay_inv_def by blast+
  have arm: "armed ?st t c \<longleftrightarrow> (armed st t c \<or> (t = ?t \<and> c = ?c))" for t c
    by (auto simp: armed_def nth_append)
  have K1: "t_reject c < length (promises ?st) \<and> promises ?st ! t_reject c = None" if "armed ?st t c" for t c
    using that J1 [of t c] by (auto simp: arm nth_append)
  have K2: "\<exists>c. armed ?st (timer e) c \<and> t_id c = i \<and> t_reject c = promise e"
    if "map_of (pendingCommands ?st) i = Some e" for i e
  proof (cases "i = uuid")
    case True
    with that have "e = \<lparr> promise = ?p, timer = ?t \<rparr>" by (simp add: update_conv)
    with True have "armed ?st (timer e) ?c \<and> t_id ?c = i \<and> t_reject ?c = promise e"
      by (simp add: arm)
    then show ?thesis by blast
  next
    case False
    with that have "map_of (pendingCommands st) i = Some e" by (simp add: update_conv)
    from J2 [OF this] show ?thesis by (auto simp: arm)
  qed
  have K3: "t1 = t2" if "armed ?st t1 c1" "armed ?st t2 c2" "t_reject c1 = t_reject c2" for t1 c1 t2 c2
    using that J3 [of t1 c1 t2 c2] J1 [of t1 c1] J1 [of t2 c2] by (auto simp: arm)
  have K4: "distinct (map fst (pendingCommands ?st))"
    using J4 by (simp add: distinct_update)
  have "relay_inv ?st" unfolding relay_inv_def using K1 K2 K3 K4 by blast
  then show ?thesis by (simp add: sendCommand_connected_eq [OF s])
qed

lemma reject_entry_simps [simp]:
  "timers (reject_entry why ie st) = (timers st)[timer (snd ie) := None]"
  "pendingCommands (reject_entry why ie st) = AList.delete (fst ie) (pendingCommands st)"
  "sent (reject_entry why ie st) = sent st"
  "extensionSocket (reject_entry why ie st) = extensionSocket st"
  "readyState (reject_entry why ie st) = readyState st"
  by (simp_all add: reject_entry_def)

lemma promises_reject_entry:
  "promises (reject_entry why ie st) = promises (settle (promise (snd ie)) (Rejected why) st)"
  by (simp add: reject_entry_def settle_def pending_delete_def clearTimeout_def)

lemma fold_reject_settled:
  "promises st ! p = Some out \<Longrightarrow> promises (fold (reject_entry why) xs st) ! p = Some out"
proof (induction xs arbitrary: st)
  case Nil
  then show ?case by simp
next
  case (Cons x xs)
  from Cons.prems have "promises (reject_entry why x st) ! p = Some out"
    by (simp add: promises_reject_entry settled_stays)
  from Cons.IH [OF this] show ?case by simp
qed

lemma fold_reject_cleared:
  "t < length (timers st) \<Longrightarrow> timers st ! t = None \<Longrightarrow>
   timers (fold (reject_entry why) xs st) ! t = None"
proof (induction xs arbitrary: st)
  case Nil
  then show ?case by simp
next
  case (Cons x xs)
  from Cons.prems have "t < length (timers (reject_entry why x st))"
    and "timers (reject_entry why x st) ! t = None"
    by (cases "timer (snd x) = t"; simp)+
  from Cons.IH [OF this] show ?case by simp
qed

lemma fold_reject_keys:
  "fst ` set (pendingCommands (fold (reject_entry why) xs st)) =
   fst ` set (pendingCommands st) - fst ` set xs"
proof (induction xs arbitrary: st)
  case Nil
  then show ?case by simp
next
  case (Cons x xs)
  have "fst ` set (AList.delete (fst x) (pendingCommands st)) = fst ` set (pendingCommands st) - {fst x}"
    by (auto simp: AList.delete_eq)
  then show ?case using Cons.IH [of "reject_entry why x st"] by auto
qed

lemma fold_reject_all:
  assumes "relay_inv st" and "distinct (map fst xs)" and "set xs \<subseteq> set (pendingCommands st)"
  shows "relay_inv (fold (reject_entry why) xs st) \<and>
         (\<forall>(i, e) \<in> set xs.
            promises (fold (reject_entry why) xs st) ! promise e = Some (Rejected why) \<and>
            timers (fold (reject_entry why) xs st) ! timer e = None)"
  using assms
proof (induction xs arbitrary: st)
  case Nil
  then show ?case by simp
next
  case (Cons x xs)
  obtain i e where x: "x = (i, e)" by (cases x)
  let ?st = "reject_entry why (i, e) st"
  from Cons.prems have d: "distinct (map fst (pendingCommands st))"
    by (simp add: relay_inv_def)
  from Cons.prems x have mem: "(i, e) \<in> set (pendingCommands st)" by simp
  with d have m: "map_of (pendingCommands st) i = Some e" by simp
  have inv': "relay_inv ?st" by (rule inv_reject_entry [OF Cons.prems(1) m])
  from inv_entry_armed [OF Cons.prems(1) m] obtain c where
    c: "armed st (timer e) c" "t_id c = i" "t_reject c = promise e" by blast
  from inv_armed_pending [OF Cons.prems(1) c(1)] c(3)
  have pend: "promise e < length (promises st)" "promises st ! promise e = None" by simp_all
  have sub: "set xs \<subseteq> set (pendingCommands ?st)"
  proof
    fix y assume y: "y \<in> set xs"
    with Cons.prems(2) x have "fst y \<noteq> i" by (auto simp: image_iff)
    moreover from y Cons.prems(3) have "y \<in> set (pendingCommands st)" by auto
    ultimately show "y \<in> set (pendingCommands ?st)" by (auto simp: AList.delete_eq)
  qed
  from Cons.prems(2) have dxs: "distinct (map fst xs)" by simp
  from Cons.IH [OF inv' dxs sub] have
    IH1: "relay_inv (fold (reject_entry why) xs ?st)" and
    IH2: "\<forall>(i, e) \<in> set xs.
            promises (fold (reject_entry why) xs ?st) ! promise e = Some (Rejected why) \<and>
            timers (fold (reject_entry why) xs ?st) ! timer e = None" by blast+
  have p1: "promises ?st ! promise e = Some (Rejected why)"
    using pend by (simp add: promises_reject_entry promises_settle)
  from c(1) have t1: "timer e < length (timers ?st)" "timers ?st ! timer e = None"
    by (simp_all add: armed_def)
  have "promises (fold (reject_entry why) xs ?st) ! promise e = Some (Rejected why)"
    by (rule fold_reject_settled [OF p1])
  moreover have "timers (fold (reject_entry why) xs ?st) ! timer e = None"
    by (rule fold_reject_cleared [OF t1])
  ultimately show ?case using IH1 IH2 x by simp
qed

lemma inv_extensionSocket:
  "relay_inv (st\<lparr> extensionSocket := x \<rparr>) = relay_inv st"
  by (simp add: relay_inv_def armed_def)

lemma inv_readyState:
  "relay_inv (st\<lparr> readyState := x \<rparr>) = relay_inv st"
  by (simp add: relay_inv_def armed_def)

lemma on_close_eq:
  "on_close s st =
     fold (reject_entry ''Extension disconnected'') (pendingCommands st)
       (if extensionSocket st = Some s then st\<lparr> extensionSocket := None \<rparr> else st)"
  by (simp add: on_close_def Let_def)

lemma inv_on_close:
  assumes inv: "relay_inv st"
  shows "relay_inv (on_close s st)"
proof -
  let ?st = "if extensionSocket st = Some s then st\<lparr> extensionSocket := None \<rparr> else st"
  have i: "relay_inv ?st" using inv by (simp add: inv_extensionSocket)
  have p: "pendingCommands ?st = pendingCommands st" by simp
  from inv have d: "distinct (map fst (pendingCommands st))" by (simp add: relay_inv_def)
  from fold_reject_all [OF i, of "pendingCommands st" "''Extension disconnected''"] d p
  show ?thesis by (simp add: on_close_eq)
qed

lemma on_message_Parsed: "m \<noteq> JNull \<Longrightarrow> on_message (Parsed m) st = Some (on_frame m st)"
  by (cases m) simp_all

lemma on_message_Some:
  assumes "on_message raw st = Some st'"
  shows "raw = SyntaxError \<and> st' = st \<or> (\<exists>m. raw = Parsed m \<and> m \<noteq> JNull \<and> st' = on_frame m st)"
proof (cases raw)
  case SyntaxError
  with assms show ?thesis by simp
next
  case (Parsed m)
  with assms show ?thesis by (cases m) auto
qed

lemma inv_step:
  assumes "relay_inv st" and "step ev st = Some st'"
  shows "relay_inv st'"
proof (cases ev)
  case (Message s raw)
  with assms on_message_Some [of raw st st'] show ?thesis
    by (auto simp: inv_on_frame)
qed (use assms in \<open>auto simp: inv_on_close inv_timer_fire inv_sendCommand inv_readyState
        inv_extensionSocket on_connection_def\<close>)

lemma inv_run:
  "relay_inv st \<Longrightarrow> run evs st = Some st' \<Longrightarrow> relay_inv st'"
proof (induction evs arbitrary: st)
  case Nil
  then show ?case by simp
next
  case (Cons ev evs)
  then show ?case by (auto split: option.splits dest: inv_step)
qed

lemma reachable_inv: "run evs relay_init = Some st \<Longrightarrow> relay_inv st"
  using inv_run [OF inv_init] .

section \<open>The relay: replies, deadlines and disconnection\<close>

lemma outstanding_retire:
  assumes o: "outstanding i p t st" and j: "j \<noteq> i"
  shows "outstanding i p t (settle q out (pending_delete j (clearTimeout t' st)))"
  using o j unfolding outstanding_def
  by (auto simp: armed_retire delete_conv)

lemma outstanding_on_frame:
  assumes inv: "relay_inv st" and o: "outstanding i p t st"
    and h: "get_prop m ''id'' \<noteq> Some (JStr i)"
  shows "outstanding i p t (on_frame m st)"
proof (cases "get_prop m ''id''")
  case None
  then show ?thesis using o by (simp add: on_frame_def)
next
  case (Some v)
  show ?thesis
  proof (cases v)
    case (JStr j)
    with Some h have ji: "j \<noteq> i" by simp
    show ?thesis
    proof (cases "map_of (pendingCommands st) j")
      case None
      then show ?thesis using o Some JStr by (simp add: on_frame_def pending_has_def)
    next
      case (Some e)
      then show ?thesis
        using o JStr \<open>get_prop m ''id'' = Some v\<close> outstanding_retire [OF o ji]
        by (simp add: on_frame_def pending_has_def Let_def)
    qed
  qed (use o Some in \<open>simp_all add: on_frame_def pending_has_def\<close>)
qed

lemma outstanding_timer_fire:
  assumes o: "outstanding i p t st" and h: "t' \<noteq> t"
  shows "outstanding i p t (timer_fire t' st)"
proof (cases "t' < length (timers st)")
  case False
  then show ?thesis using o by (simp add: timer_fire_def)
next
  case True
  show ?thesis
  proof (cases "timers st ! t'")
    case None
    then show ?thesis using o True by (simp add: timer_fire_def)
  next
    case (Some c)
    with True have "armed st t' c" by (simp add: armed_def)
    with o h have "t_id c \<noteq> i" by (auto simp: outstanding_def)
    from outstanding_retire [OF o this] show ?thesis
      using True Some by (simp add: timer_fire_def clearTimeout_def)
  qed
qed

lemma outstanding_sendCommand:
  assumes o: "outstanding i p t st" and h: "uuid \<noteq> i"
  shows "outstanding i p t (snd (sendCommand uuid action params st))"
proof (cases "connected st")
  case False
  then show ?thesis using o
    by (simp add: sendCommand_not_connected_eq outstanding_def armed_def)
next
  case True
  then obtain s where s: "extensionSocket st = Some s" "readyState st s = OPEN"
    by (auto simp: connected_def split: option.splits)
  show ?thesis using o h
    by (auto simp: sendCommand_connected_eq [OF s] outstanding_def armed_def update_conv nth_append
             split: if_splits)
qed

lemma outstanding_step:
  assumes inv: "relay_inv st" and o: "outstanding i p t st"
    and h: "harmless i t ev" and s: "step ev st = Some st'"
  shows "outstanding i p t st'"
proof (cases ev)
  case (Connection s)
  with o s show ?thesis by (auto simp: on_connection_def outstanding_def armed_def)
next
  case (Message s raw)
  with s on_message_Some [of raw st st'] h show ?thesis
    using o outstanding_on_frame [OF inv o] by auto
next
  case (Close s)
  with h show ?thesis by simp
next
  case (SetReadyState s r)
  with o s show ?thesis by (auto simp: outstanding_def armed_def)
next
  case (TimerFire t')
  with o s h show ?thesis by (auto simp: outstanding_timer_fire)
next
  case (SendCommand uuid action params)
  with o s h show ?thesis by (auto simp: outstanding_sendCommand)
qed

lemma outstanding_run:
  "relay_inv st \<Longrightarrow> outstanding i p t st \<Longrightarrow> list_all (harmless i t) evs \<Longrightarrow>
   run evs st = Some st' \<Longrightarrow> relay_inv st' \<and> outstanding i p t st'"
proof (induction evs arbitrary: st)
  case Nil
  then show ?case by simp
next
  case (Cons ev evs)
  from Cons.prems obtain st1 where st1: "step ev st = Some st1" "run evs st1 = Some st'"
    by (auto split: option.splits)
  from Cons.prems have h: "harmless i t ev" "list_all (harmless i t) evs" by simp_all
  have "relay_inv st1" by (rule inv_step [OF Cons.prems(1) st1(1)])
  moreover have "outstanding i p t st1"
    by (rule outstanding_step [OF Cons.prems(1) Cons.prems(2) h(1) st1(1)])
  ultimately show ?case using Cons.IH h(2) st1(2) by blast
qed

lemma fresh_id_armed: "fresh_id i st \<Longrightarrow> armed st t c \<Longrightarrow> t_id c \<noteq> i"
  by (auto simp: fresh_id_def armed_def list_all_length split: option.splits)

lemma sendCommand_outstanding:
  assumes c: "connected st" and f: "fresh_id uuid st"
  shows "outstanding uuid (length (promises st)) (length (timers st))
           (snd (sendCommand uuid action params st))"
proof -
  from c obtain s where s: "extensionSocket st = Some s" "readyState st s = OPEN"
    by (auto simp: connected_def split: option.splits)
  show ?thesis using fresh_id_armed [OF f]
    by (auto simp: sendCommand_connected_eq [OF s] outstanding_def armed_def update_conv nth_append
             split: if_splits)
qed

lemma on_frame_reply:
  assumes inv: "relay_inv st" and m: "map_of (pendingCommands st) i = Some e"
    and i: "i \<noteq> []" and id: "get_prop msg ''id'' = Some (JStr i)"
    and ty: "get_prop msg ''type'' \<noteq> Some (JStr ''ping'')"
            "get_prop msg ''type'' \<noteq> Some (JStr ''extension_ready'')"
  shows "promises st ! promise e = None"
    and "promises (on_frame msg st) ! promise e =
           Some (if truthy (get_prop msg ''success'') then Resolved (get_prop msg ''data'')
                 else Rejected (if truthy (get_prop msg ''error'')
                                then to_string_u (get_prop msg ''error'')
                                else ''Extension command failed''))"
    and "pendingCommands (on_frame msg st) = AList.delete i (pendingCommands st)"
    and "timers (on_frame msg st) = (timers st)[timer e := None]"
    and "sent (on_frame msg st) = sent st"
proof -
  from inv_entry_armed [OF inv m] obtain c where
    c: "armed st (timer e) c" "t_id c = i" "t_reject c = promise e" by blast
  from inv_armed_pending [OF inv c(1)] c(3)
  have pend: "promise e < length (promises st)" "promises st ! promise e = None" by simp_all
  show "promises st ! promise e = None" by fact
  show "promises (on_frame msg st) ! promise e =
           Some (if truthy (get_prop msg ''success'') then Resolved (get_prop msg ''data'')
                 else Rejected (if truthy (get_prop msg ''error'')
                                then to_string_u (get_prop msg ''error'')
                                else ''Extension command failed''))"
    using m i id ty pend by (simp add: on_frame_def pending_has_def Let_def promises_settle)
  show "pendingCommands (on_frame msg st) = AList.delete i (pendingCommands st)"
    using m i id ty by (simp add: on_frame_def pending_has_def Let_def)
  show "timers (on_frame msg st) = (timers st)[timer e := None]"
    using m i id ty by (simp add: on_frame_def pending_has_def Let_def)
  show "sent (on_frame msg st) = sent st"
    using m i id ty by (simp add: on_frame_def pending_has_def Let_def)
qed

text \<open>
  What holds of a reply that arrives in time, as long as no socket at all closes in between.
  A command is submitted with \<open>sendCommand\<close> while the peer socket is set and OPEN;
  the id drawn is a non-empty string that is not the id of a request still awaiting its
  deadline. Whatever harmless events happen in between (other submissions, other replies,
  pings, other timers firing, sockets changing state; not this request's deadline, not the
  close of any socket), when a frame with that id and a truthy \<open>success\<close> arrives, the promise
  returned by \<open>sendCommand\<close> was still pending and is now resolved with exactly the frame's
  \<open>data\<close>, the pending table has no entry for the id any more, and the deadline timer is
  cleared.
\<close>

theorem reply_resolves_with_data:
  assumes reach: "run evs0 relay_init = Some st0"
    and conn: "connected st0"
    and uuid: "uuid \<noteq> []" "fresh_id uuid st0"
    and submit: "sendCommand uuid action params st0 = (p, st1)"
    and between: "list_all (harmless uuid (length (timers st0))) evs" "run evs st1 = Some st2"
    and reply: "get_prop msg ''id'' = Some (JStr uuid)" "truthy (get_prop msg ''success'')"
               "get_prop msg ''type'' \<noteq> Some (JStr ''ping'')"
               "get_prop msg ''type'' \<noteq> Some (JStr ''extension_ready'')"
  shows "\<exists>st3. on_message (Parsed msg) st2 = Some st3 \<and>
               promises st2 ! p = None \<and>
               promises st3 ! p = Some (Resolved (get_prop msg ''data'')) \<and>
               map_of (pendingCommands st3) uuid = None \<and>
               timers st3 ! length (timers st0) = None"
proof -
  have inv0: "relay_inv st0" by (rule reachable_inv [OF reach])
  from submit have p: "p = length (promises st0)" and st1: "st1 = snd (sendCommand uuid action params st0)"
    by (auto simp: sendCommand_def Let_def split: option.splits if_splits)
  have inv1: "relay_inv st1" unfolding st1 by (rule inv_sendCommand [OF inv0])
  have o1: "outstanding uuid p (length (timers st0)) st1"
    unfolding st1 p by (rule sendCommand_outstanding [OF conn uuid(2)])
  from outstanding_run [OF inv1 o1 between] have inv2: "relay_inv st2"
    and o2: "outstanding uuid p (length (timers st0)) st2" by simp_all
  from o2 have m: "map_of (pendingCommands st2) uuid = Some \<lparr> promise = p, timer = length (timers st0) \<rparr>"
    by (simp add: outstanding_def)
  from reply(1) have nn: "msg \<noteq> JNull" by auto
  from inv_entry_armed [OF inv2 m] have len: "length (timers st0) < length (timers st2)"
    by (auto simp: armed_def)
  from on_frame_reply [OF inv2 m uuid(1) reply(1) reply(3,4)] reply(2) len
  have "promises st2 ! p = None"
    and "promises (on_frame msg st2) ! p = Some (Resolved (get_prop msg ''data''))"
    and "map_of (pendingCommands (on_frame msg st2)) uuid = None"
    and "timers (on_frame msg st2) ! length (timers st0) = None"
    by (simp_all add: delete_conv)
  then show ?thesis using on_message_Parsed [OF nn] by simp
qed


lemma demo_connected_run:
  "run [SetReadyState 0 OPEN, Connection 0] relay_init = Some demo_connected"
  by (simp add: relay_init_def on_connection_def demo_connected_def)

lemma demo_connected_connected: "connected demo_connected"
  by (simp add: connected_def demo_connected_def)

text \<open>
  The theorem at a concrete run: a ping, a second command and that command's failure reply
  arrive between the submission of \<open>id-1\<close> and its reply.
\<close>

theorem reply_resolves_with_data_witness:
  "run [SetReadyState 0 OPEN, Connection 0] relay_init = Some demo_connected \<and>
   connected demo_connected \<and> fresh_id ''id-1'' demo_connected \<and>
   list_all (harmless ''id-1'' (length (timers demo_connected))) demo_between \<and>
   (\<exists>st1 st2 st3.
      sendCommand ''id-1'' (JStr ''get_title'') [] demo_connected = (0, st1) \<and>
      run demo_between st1 = Some st2 \<and>
      on_message (Parsed demo_reply) st2 = Some st3 \<and>
      promises st2 ! 0 = None \<and>
      promises st3 ! 0 = Some (Resolved (Some (JObj [(''title'', JStr ''Home'')]))) \<and>
      map_of (pendingCommands st3) ''id-1'' = None)"
proof -
  have f: "fresh_id ''id-1'' demo_connected"
    by (simp add: fresh_id_def demo_connected_def)
  have h: "list_all (harmless ''id-1'' (length (timers demo_connected))) demo_between"
    by (simp add: demo_between_def demo_connected_def)
  obtain st1 where s1: "sendCommand ''id-1'' (JStr ''get_title'') [] demo_connected = (0, st1)"
    by (simp add: sendCommand_connected_eq [of _ 0] demo_connected_def)
  have "\<exists>st2. run demo_between st1 = Some st2"
    by (cases "run demo_between st1")
       (use s1 in \<open>auto simp: demo_between_def split: option.splits\<close>)
  then obtain st2 where s2: "run demo_between st1 = Some st2" by blast
  from reply_resolves_with_data [OF demo_connected_run demo_connected_connected _ f s1 h s2,
      of demo_reply]
  obtain st3 where "on_message (Parsed demo_reply) st2 = Some st3 \<and>
      promises st2 ! 0 = None \<and>
      promises st3 ! 0 = Some (Resolved (get_prop demo_reply ''data'')) \<and>
      map_of (pendingCommands st3) ''id-1'' = None"
    by (auto simp: demo_reply_def)
  then show ?thesis
    using demo_connected_run demo_connected_connected f h s1 s2
    by (auto simp: demo_reply_def)
qed

text \<open>
  Claim C1 at its failing input. The extension has connected twice: socket 0 is still open,
  socket 1 has replaced it as \<open>extensionSocket\<close>. A command is submitted and its envelope goes
  to socket 1, the live peer. Then the stale socket 0 closes. Its close handler guards only
  the assignment \<open>extensionSocket = null\<close> by \<open>extensionSocket === socket\<close>; the loop that
  rejects the pending commands runs all the same. The peer is still connected, yet the
  caller's promise is rejected with "Extension disconnected" and the table is empty, so the
  reply that socket 1 sends before the deadline is dropped and the promise is never resolved
  with its data.
\<close>

theorem stale_close_rejects_command_of_live_peer:
  "(case run demo_two_sockets relay_init of
      None \<Rightarrow> False
    | Some st \<Rightarrow>
        extensionSocket st = Some 1 \<and> connected st \<and>
        sent st = [(1, JObj [(''id'', JStr ''id-1''), (''action'', JStr ''get_title'')])] \<and>
        map fst (pendingCommands st) = [''id-1''] \<and> promises st ! 0 = None \<and>
        (case run [SetReadyState 0 CLOSED, Close 0] st of
           None \<Rightarrow> False
         | Some st' \<Rightarrow>
             extensionSocket st' = Some 1 \<and> connected st' \<and>
             pendingCommands st' = [] \<and>
             promises st' ! 0 = Some (Rejected ''Extension disconnected'') \<and>
             run [Message 1 (Parsed demo_reply)] st' = Some st' \<and>
             promises st' ! 0 \<noteq> Some (Resolved (get_prop demo_reply ''data''))))"
  by (simp add: demo_two_sockets_def relay_init_def on_connection_def sendCommand_def Let_def
        spread_def connected_def on_close_def reject_entry_def settle_def pending_delete_def
        clearTimeout_def on_frame_def pending_has_def demo_reply_def)

text \<open>
  Claim C2. In every state the server can reach, when a peer connection closes, every entry of
  the pending table had a pending promise and an armed timer; after the close handler the
  promise is rejected with "Extension disconnected", the timer is cleared, and the table is empty.
\<close>

theorem close_rejects_all_pending:
  assumes "run evs relay_init = Some st"
  shows "pendingCommands (on_close s st) = [] \<and>
         (\<forall>(i, e) \<in> set (pendingCommands st).
            promises st ! promise e = None \<and> timers st ! timer e \<noteq> None \<and>
            promises (on_close s st) ! promise e = Some (Rejected ''Extension disconnected'') \<and>
            timers (on_close s st) ! timer e = None)"
proof -
  have inv: "relay_inv st" by (rule reachable_inv [OF assms])
  let ?st = "if extensionSocket st = Some s then st\<lparr> extensionSocket := None \<rparr> else st"
  let ?why = "''Extension disconnected''"
  have i: "relay_inv ?st" using inv by (simp add: inv_extensionSocket)
  have p: "pendingCommands ?st = pendingCommands st" "promises ?st = promises st" "timers ?st = timers st"
    by simp_all
  from inv have d: "distinct (map fst (pendingCommands st))" by (simp add: relay_inv_def)
  have "fst ` set (pendingCommands (on_close s st)) = {}"
    using fold_reject_keys [of ?why "pendingCommands st" ?st] p(1) by (simp add: on_close_eq)
  then have empty: "pendingCommands (on_close s st) = []" by simp
  have after: "\<forall>(i, e) \<in> set (pendingCommands st).
            promises (on_close s st) ! promise e = Some (Rejected ?why) \<and>
            timers (on_close s st) ! timer e = None"
    using fold_reject_all [OF i, of "pendingCommands st" ?why] d p(1) by (simp add: on_close_eq)
  have before: "promises st ! promise e = None \<and> timers st ! timer e \<noteq> None"
    if "(i, e) \<in> set (pendingCommands st)" for i e
  proof -
    from that d have m: "map_of (pendingCommands st) i = Some e" by simp
    from inv_entry_armed [OF inv m] obtain c where
      c: "armed st (timer e) c" "t_id c = i" "t_reject c = promise e" by blast
    from inv_armed_pending [OF inv c(1)] c show ?thesis by (simp add: armed_def)
  qed
  show ?thesis using empty after before by auto
qed

text \<open>
  The theorem at a concrete run with two requests outstanding.
\<close>

theorem close_rejects_all_pending_witness:
  "\<exists>st. run demo_two_pending relay_init = Some st \<and>
        map fst (pendingCommands st) = [''id-1'', ''id-2''] \<and>
        map (promise \<circ> snd) (pendingCommands st) = [0, 1] \<and>
        map (timer \<circ> snd) (pendingCommands st) = [0, 1] \<and>
        pendingCommands (on_close 0 st) = [] \<and>
        promises (on_close 0 st) ! 0 = Some (Rejected ''Extension disconnected'') \<and>
        promises (on_close 0 st) ! 1 = Some (Rejected ''Extension disconnected'') \<and>
        timers (on_close 0 st) ! 0 = None \<and> timers (on_close 0 st) ! 1 = None"
proof -
  obtain st where st: "run demo_two_pending relay_init = Some st"
    by (simp add: demo_two_pending_def)
  have k: "pendingCommands st = [(''id-1'', \<lparr> promise = 0, timer = 0 \<rparr>), (''id-2'', \<lparr> promise = 1, timer = 1 \<rparr>)]"
    using st by (auto simp: demo_two_pending_def relay_init_def on_connection_def
        sendCommand_def Let_def)
  from close_rejects_all_pending [OF st, of 0] show ?thesis
    using st k by auto
qed


lemma on_frame_unmatched:
  "\<not> pending_has (get_prop m ''id'') st \<Longrightarrow> on_frame m st = st"
  by (simp add: on_frame_def)

lemma timer_fire_armed:
  assumes inv: "relay_inv st" and a: "armed st t c"
  shows "promises (timer_fire t st) ! t_reject c =
           Some (Rejected (''Command timed out after 30s: '' @ to_string (t_action c)))"
    and "map_of (pendingCommands (timer_fire t st)) (t_id c) = None"
    and "timers (timer_fire t st) ! t = None"
  using a inv_armed_pending [OF inv a]
  by (simp_all add: timer_fire_def armed_def promises_settle digits_30 delete_conv)

lemma settle_length: "length (promises (settle p out st)) = length (promises st)"
  by (simp add: settle_def)

lemma fold_reject_length:
  "length (promises (fold (reject_entry why) xs st)) = length (promises st)"
  by (induction xs arbitrary: st) (simp_all add: promises_reject_entry)

lemma on_frame_promises:
  "length (promises (on_frame m st)) = length (promises st) \<and>
   (promises st ! p = Some out \<longrightarrow> promises (on_frame m st) ! p = Some out)"
  by (auto simp: on_frame_def Let_def settled_stays split: option.splits json.splits)

lemma timer_fire_promises:
  "length (promises (timer_fire t st)) = length (promises st) \<and>
   (promises st ! p = Some out \<longrightarrow> promises (timer_fire t st) ! p = Some out)"
  by (auto simp: timer_fire_def settled_stays split: option.splits)

lemma sendCommand_promises:
  "length (promises st) < length (promises (snd (sendCommand uuid action params st))) \<and>
   (p < length (promises st) \<longrightarrow>
      promises (snd (sendCommand uuid action params st)) ! p = promises st ! p)"
  by (auto simp: sendCommand_def Let_def nth_append split: option.splits)

lemma settled_step:
  assumes "p < length (promises st)" and "promises st ! p = Some out" and "step ev st = Some st'"
  shows "p < length (promises st') \<and> promises st' ! p = Some out"
proof (cases ev)
  case (Connection s)
  with assms show ?thesis by (auto simp: on_connection_def)
next
  case (Message s raw)
  with assms on_message_Some [of raw st st'] on_frame_promises [of _ st p out] show ?thesis
    by auto
next
  case (Close s)
  with assms show ?thesis
    by (auto simp: on_close_eq fold_reject_length fold_reject_settled)
next
  case (SetReadyState s r)
  with assms show ?thesis by auto
next
  case (TimerFire t)
  with assms timer_fire_promises [of t st p out] show ?thesis by auto
next
  case (SendCommand uuid action params)
  with assms sendCommand_promises [of st uuid action params p] show ?thesis by auto
qed

lemma settled_run:
  "p < length (promises st) \<Longrightarrow> promises st ! p = Some out \<Longrightarrow> run evs st = Some st' \<Longrightarrow>
   promises st' ! p = Some out"
proof (induction evs arbitrary: st)
  case Nil
  then show ?case by simp
next
  case (Cons ev evs)
  from Cons.prems obtain st1 where st1: "step ev st = Some st1" "run evs st1 = Some st'"
    by (auto split: option.splits)
  from settled_step [OF Cons.prems(1,2) st1(1)] Cons.IH [OF _ _ st1(2)] show ?case by blast
qed

text \<open>
  Claim C4. A frame whose id is not a key of the pending table leaves the whole state of the
  server as it was: no promise is settled, no timer touched, nothing sent. In particular, once
  the deadline timer of a request has fired, the request's promise is rejected with the timeout
  error and a late frame carrying its id changes nothing. And whatever happens afterwards, a
  promise that is settled keeps the result it was settled with.
\<close>

theorem unmatched_reply_dropped:
  assumes "run evs relay_init = Some st" and "m \<noteq> JNull"
  shows "(\<not> pending_has (get_prop m ''id'') st \<longrightarrow> on_message (Parsed m) st = Some st) \<and>
         (\<forall>t c. armed st t c \<and> get_prop m ''id'' = Some (JStr (t_id c)) \<longrightarrow>
            promises (timer_fire t st) ! t_reject c =
              Some (Rejected (''Command timed out after 30s: '' @ to_string (t_action c))) \<and>
            on_message (Parsed m) (timer_fire t st) = Some (timer_fire t st)) \<and>
         (\<forall>p out evs' st'.
            p < length (promises st) \<and> promises st ! p = Some out \<and> run evs' st = Some st' \<longrightarrow>
            promises st' ! p = Some out)"
proof -
  have inv: "relay_inv st" by (rule reachable_inv [OF assms(1)])
  have a: "on_message (Parsed m) st' = Some st'" if "\<not> pending_has (get_prop m ''id'') st'" for st'
    using that assms(2) by (simp add: on_message_Parsed on_frame_unmatched)
  have b: "\<not> pending_has (get_prop m ''id'') (timer_fire t st)"
    if "armed st t c" "get_prop m ''id'' = Some (JStr (t_id c))" for t c
    using timer_fire_armed(2) [OF inv that(1)] that(2) by (simp add: pending_has_def)
  have c: "promises st' ! p = Some out"
    if "p < length (promises st)" "promises st ! p = Some out" "run evs' st = Some st'"
    for p out evs' st'
    using settled_run [OF that] .
  show ?thesis using a b c timer_fire_armed(1) [OF inv] by blast
qed

text \<open>
  The theorem at a concrete run: the deadline of \<open>id-1\<close> fires, then its reply arrives.
\<close>

theorem unmatched_reply_dropped_witness:
  "\<exists>st. run demo_two_pending relay_init = Some st \<and> demo_late_reply \<noteq> JNull \<and>
        armed st 0 \<lparr> t_id = ''id-1'', t_reject = 0, t_action = JStr ''get_title'' \<rparr> \<and>
        get_prop demo_late_reply ''id'' = Some (JStr ''id-1'') \<and>
        \<not> pending_has (get_prop demo_late_reply ''id'') (timer_fire 0 st) \<and>
        promises (timer_fire 0 st) ! 0 = Some (Rejected ''Command timed out after 30s: get_title'') \<and>
        on_message (Parsed demo_late_reply) (timer_fire 0 st) = Some (timer_fire 0 st)"
proof -
  obtain st where st: "run demo_two_pending relay_init = Some st"
    by (simp add: demo_two_pending_def)
  have a: "armed st 0 \<lparr> t_id = ''id-1'', t_reject = 0, t_action = JStr ''get_title'' \<rparr>"
    using st by (auto simp: demo_two_pending_def relay_init_def on_connection_def
        sendCommand_def Let_def armed_def)
  have n: "demo_late_reply \<noteq> JNull" by (simp add: demo_late_reply_def)
  have i: "get_prop demo_late_reply ''id'' = Some (JStr ''id-1'')" by (simp add: demo_late_reply_def)
  have u: "\<not> pending_has (get_prop demo_late_reply ''id'') (timer_fire 0 st)"
    using st by (auto simp: demo_two_pending_def relay_init_def on_connection_def
        sendCommand_def Let_def timer_fire_def pending_has_def demo_late_reply_def settle_def
        pending_delete_def)
  let ?c = "\<lparr> t_id = ''id-1'', t_reject = 0, t_action = JStr ''get_title'' \<rparr>"
  have "armed st 0 ?c \<and> get_prop demo_late_reply ''id'' = Some (JStr (t_id ?c)) \<longrightarrow>
        promises (timer_fire 0 st) ! t_reject ?c =
          Some (Rejected (''Command timed out after 30s: '' @ to_string (t_action ?c))) \<and>
        on_message (Parsed demo_late_reply) (timer_fire 0 st) = Some (timer_fire 0 st)"
    using unmatched_reply_dropped [OF st n] by blast
  with a i have "promises (timer_fire 0 st) ! 0 =
          Some (Rejected ''Command timed out after 30s: get_title'') \<and>
        on_message (Parsed demo_late_reply) (timer_fire 0 st) = Some (timer_fire 0 st)"
    by simp
  then show ?thesis
    using st n a i u by auto
qed

text \<open>
  Claim C3. When \<open>extensionSocket\<close> is null or its \<open>readyState\<close> is not OPEN, the promise
  returned by \<open>sendCommand\<close> is already rejected with "Chrome extension is not connected";
  no timer is created, the pending table is unchanged and nothing is sent.
\<close>

theorem sendCommand_rejects_when_not_connected:
  assumes "\<not> connected st" and "sendCommand uuid action params st = (p, st')"
  shows "p = length (promises st) \<and>
         promises st' ! p = Some (Rejected ''Chrome extension is not connected'') \<and>
         timers st' = timers st \<and> pendingCommands st' = pendingCommands st \<and>
         sent st' = sent st \<and> extensionSocket st' = extensionSocket st"
  using assms by (auto simp: sendCommand_not_connected_eq)

text \<open>
  The theorem at a concrete state: the socket is set but CLOSING.
\<close>

theorem sendCommand_rejects_when_not_connected_witness:
  "\<exists>st st'. run demo_closing relay_init = Some st \<and> extensionSocket st = Some 0 \<and>
     \<not> connected st \<and> \<not> connected relay_init \<and>
     sendCommand ''id-1'' (JStr ''click'') [(''selector'', JStr ''#x'')] st = (0, st') \<and>
     promises st' ! 0 = Some (Rejected ''Chrome extension is not connected'') \<and>
     timers st' = [] \<and> pendingCommands st' = [] \<and> sent st' = []"
proof -
  obtain st where st: "run demo_closing relay_init = Some st"
    by (simp add: demo_closing_def)
  then have f: "extensionSocket st = Some 0" "\<not> connected st" "promises st = []" "timers st = []"
      "pendingCommands st = []" "sent st = []"
    by (auto simp: demo_closing_def relay_init_def on_connection_def connected_def)
  obtain p st' where s: "sendCommand ''id-1'' (JStr ''click'') [(''selector'', JStr ''#x'')] st = (p, st')"
    by (cases "sendCommand ''id-1'' (JStr ''click'') [(''selector'', JStr ''#x'')] st")
  from sendCommand_rejects_when_not_connected [OF f(2) s] show ?thesis
    using st f s by (auto simp: connected_def relay_init_def)
qed

text \<open>
  Claim C9, as the code has it. The health response is an object with exactly the fields
  \<open>status\<close>, \<open>extensionConnected\<close> and \<open>pendingCommands\<close>, in that order: the status is "ok",
  the flag is true iff a peer socket is set and OPEN, and the count is the size of the pending
  table.
\<close>

theorem health_fields:
  "obj_keys (health st) = [''status'', ''extensionConnected'', ''pendingCommands''] \<and>
   get_prop (health st) ''status'' = Some (JStr ''ok'') \<and>
   get_prop (health st) ''extensionConnected'' =
     Some (JBool (\<exists>s. extensionSocket st = Some s \<and> readyState st s = OPEN)) \<and>
   get_prop (health st) ''pendingCommands'' = Some (JNum (int (length (pendingCommands st))))"
  by (auto simp: health_def obj_keys_def connected_def split: option.splits)

text \<open>
  The fields are not named \<open>peerConnected\<close> and \<open>pendingCount\<close>.
\<close>

theorem health_field_names_counterexample:
  "set (obj_keys (health relay_init)) \<noteq> {''status'', ''peerConnected'', ''pendingCount''}"
proof -
  have "''peerConnected'' \<notin> set (obj_keys (health relay_init))"
    by (simp add: health_def obj_keys_def)
  moreover have "''peerConnected'' \<in> {''status'', ''peerConnected'', ''pendingCount''}"
    by simp
  ultimately show ?thesis by metis
qed

lemma pending_size_is_key_count:
  assumes "run evs relay_init = Some st"
  shows "length (pendingCommands st) = card (dom (map_of (pendingCommands st)))"
proof -
  from reachable_inv [OF assms] have "distinct (map fst (pendingCommands st))"
    by (simp add: relay_inv_def)
  from distinct_card [OF this] show ?thesis by (simp add: dom_map_of_conv_image_fst)
qed

section \<open>The gateway and unknown actions\<close>

lemma spread_action:
  "map_of (spread base rest) k = (case map_of (rev rest) k of Some v \<Rightarrow> Some v | None \<Rightarrow> map_of base k)"
  unfolding spread_def
proof (induction rest arbitrary: base)
  case Nil
  then show ?case by simp
next
  case (Cons x rest)
  obtain a b where x: "x = (a, b)" by (cases x)
  show ?case
    by (simp add: x Cons.IH update_conv map_add_def split: option.splits)
qed

lemma map_of_rev_delete:
  "map_of (rev (AList.delete k ps)) k = None"
  by (auto simp: map_of_eq_None_iff AList.delete_eq image_iff)

lemma handleCommand_unknown:
  assumes "action \<notin> JStr ` set SHORTCUT_ACTIONS"
  shows "handleCommand (Some action) ps = Inl (''Unknown action: '' @ to_string action)"
  using assms by (auto simp: handleCommand_def SHORTCUT_ACTIONS_def to_string_u_def)

lemma handleCommand_known:
  assumes "a \<in> set SHORTCUT_ACTIONS"
  shows "\<exists>h. handleCommand (Some (JStr a)) ps = Inr h"
  using assms by (auto simp: handleCommand_def SHORTCUT_ACTIONS_def)

lemma reply_frame_failure:
  "reply_frame (Some i) (Inl message) =
     JObj [(''id'', i), (''success'', JBool False), (''error'', JStr message)]"
  by (simp add: reply_frame_def defined_props_def)

lemma spread_id:
  "map_of ps ''id'' = None \<Longrightarrow>
   get_prop (JObj (spread [(''id'', JStr uuid), (''action'', action)] ps)) ''id'' = Some (JStr uuid)"
proof -
  assume "map_of ps ''id'' = None"
  then have "''id'' \<notin> fst ` set (rev ps)" by (simp add: map_of_eq_None_iff)
  then have "map_of (rev ps) ''id'' = None"
    using map_of_eq_None_iff [of "rev ps" "''id''"] by blast
  then show ?thesis by (simp add: spread_action)
qed

text \<open>
  Claim C8, as the code has it. The server does not check the action against the enumerated
  set. With a peer connected, \<open>POST /command\<close> with a truthy action outside the set (and no
  \<open>id\<close> property of its own) sends one envelope carrying the drawn id and that action to the
  peer. The executor rejects it: \<open>handleCommand\<close> calls no handler and fails with
  "Unknown action: " followed by the action; the failure reply carries the envelope's id, and
  on its arrival the promise the REST handler awaits is rejected with that message.
\<close>

theorem unknown_action_rejected_by_the_executor:
  assumes reach: "run evs relay_init = Some st"
    and conn: "extensionSocket st = Some s" "readyState st s = OPEN"
    and body: "map_of body ''action'' = Some action" "truthy (Some action)" "map_of body ''id'' = None"
    and uuid: "uuid \<noteq> []"
    and unknown: "action \<notin> JStr ` set SHORTCUT_ACTIONS"
  shows "\<exists>p st' payload d st''.
           post_command uuid body st = (Inr p, st') \<and>
           sent st' = sent st @ [(s, payload)] \<and>
           get_prop payload ''id'' = Some (JStr uuid) \<and>
           get_prop payload ''action'' = Some action \<and>
           onmessage (Parsed payload) est = (est, Some d) \<and>
           d_call d = Inl (''Unknown action: '' @ to_string action) \<and>
           reply_frame (d_id d) (command_outcome d browser) =
             JObj [(''id'', JStr uuid), (''success'', JBool False),
                   (''error'', JStr (''Unknown action: '' @ to_string action))] \<and>
           on_message (Parsed (reply_frame (d_id d) (command_outcome d browser))) st' = Some st'' \<and>
           promises st'' ! p = Some (Rejected (''Unknown action: '' @ to_string action))"
proof -
  let ?ps = "AList.delete ''action'' body"
  let ?payload = "JObj (spread [(''id'', JStr uuid), (''action'', action)] ?ps)"
  let ?p = "length (promises st)"
  let ?msg = "''Unknown action: '' @ to_string action"
  have inv: "relay_inv st" by (rule reachable_inv [OF reach])
  obtain st' where st': "sendCommand uuid action ?ps st = (?p, st')"
    and sent: "sent st' = sent st @ [(s, ?payload)]"
    and pend: "map_of (pendingCommands st') uuid = Some \<lparr> promise = ?p, timer = length (timers st) \<rparr>"
    using conn by (simp add: sendCommand_def Let_def update_conv)
  from inv_sendCommand [OF inv, of uuid action ?ps] st' have inv': "relay_inv st'" by simp
  have pc: "post_command uuid body st = (Inr ?p, st')"
    using body(1,2) st' by (simp add: post_command_def)
  have act: "get_prop ?payload ''action'' = Some action"
    by (simp add: spread_action map_of_rev_delete)
  have "map_of ?ps ''id'' = None" using body(3) by (simp add: delete_conv)
  then have pid: "get_prop ?payload ''id'' = Some (JStr uuid)" by (rule spread_id)
  let ?d = "\<lparr> d_id = get_prop ?payload ''id'',
              d_call = handleCommand (get_prop ?payload ''action'') (rest_params ?payload) \<rparr>"
  have om: "onmessage (Parsed ?payload) est = (est, Some ?d)" by simp
  have call: "d_call ?d = Inl ?msg"
    using handleCommand_unknown [OF unknown] act by simp
  have rf: "reply_frame (d_id ?d) (command_outcome ?d browser) =
             JObj [(''id'', JStr uuid), (''success'', JBool False), (''error'', JStr ?msg)]"
    using call pid by (simp add: command_outcome_def reply_frame_failure)
  let ?reply = "JObj [(''id'', JStr uuid), (''success'', JBool False), (''error'', JStr ?msg)]"
  have "promises (on_frame ?reply st') ! promise \<lparr> promise = ?p, timer = length (timers st) \<rparr> =
          Some (if truthy (get_prop ?reply ''success'') then Resolved (get_prop ?reply ''data'')
                 else Rejected (if truthy (get_prop ?reply ''error'')
                                then to_string_u (get_prop ?reply ''error'')
                                else ''Extension command failed''))"
    by (rule on_frame_reply(2) [OF inv' pend uuid]) simp_all
  then have rej: "promises (on_frame ?reply st') ! ?p = Some (Rejected ?msg)"
    by (simp add: to_string_u_def)
  have on: "on_message (Parsed ?reply) st' = Some (on_frame ?reply st')" by simp
  show ?thesis
    using pc sent pid act om call rf on rej
    by (intro exI [of _ ?p] exI [of _ st'] exI [of _ ?payload] exI [of _ ?d]
          exI [of _ "on_frame ?reply st'"]) simp
qed

text \<open>
  An envelope for the action "bogus" is sent over the peer connection.
\<close>

theorem unknown_action_is_forwarded_counterexample:
  "''bogus'' \<notin> set SHORTCUT_ACTIONS \<and>
   sent (snd (post_command ''id-1'' [(''action'', JStr ''bogus'')] demo_connected))
     = [(0, JObj [(''id'', JStr ''id-1''), (''action'', JStr ''bogus'')])]"
  by (simp add: SHORTCUT_ACTIONS_def post_command_def sendCommand_def demo_connected_def Let_def
        spread_def)

lemma post_command_missing_action:
  "\<not> truthy (map_of body ''action'') \<Longrightarrow>
   post_command uuid body st =
     (Inl (Http 400 (JObj [(''success'', JBool False), (''error'', JStr ''Missing 'action' field'')])), st)"
  by (auto simp: post_command_def split: option.splits)

text \<open>
  The theorem at the action "bogus".
\<close>

theorem unknown_action_rejected_by_the_executor_witness:
  "run [SetReadyState 0 OPEN, Connection 0] relay_init = Some demo_connected \<and>
   extensionSocket demo_connected = Some 0 \<and> readyState demo_connected 0 = OPEN \<and>
   map_of [(''action'', JStr ''bogus''), (''selector'', JStr ''#x'')] ''action'' = Some (JStr ''bogus'') \<and>
   truthy (Some (JStr ''bogus'')) \<and>
   map_of [(''action'', JStr ''bogus''), (''selector'', JStr ''#x'')] ''id'' = None \<and>
   ''id-1'' \<noteq> [] \<and> JStr ''bogus'' \<notin> JStr ` set SHORTCUT_ACTIONS \<and>
   (\<exists>p st' payload d st''.
      post_command ''id-1'' [(''action'', JStr ''bogus''), (''selector'', JStr ''#x'')] demo_connected
        = (Inr p, st') \<and>
      sent st' = [(0, payload)] \<and>
      get_prop payload ''action'' = Some (JStr ''bogus'') \<and>
      onmessage (Parsed payload) timer_ext_init = (timer_ext_init, Some d) \<and>
      d_call d = Inl ''Unknown action: bogus'' \<and>
      on_message (Parsed (reply_frame (d_id d) (command_outcome d (Inr None)))) st' = Some st'' \<and>
      promises st'' ! p = Some (Rejected ''Unknown action: bogus''))"
proof -
  have h: "extensionSocket demo_connected = Some 0" "readyState demo_connected 0 = OPEN"
    "map_of [(''action'', JStr ''bogus''), (''selector'', JStr ''#x'')] ''action'' = Some (JStr ''bogus'')"
    "truthy (Some (JStr ''bogus''))"
    "map_of [(''action'', JStr ''bogus''), (''selector'', JStr ''#x'')] ''id'' = None"
    "''id-1'' \<noteq> []" "JStr ''bogus'' \<notin> JStr ` set SHORTCUT_ACTIONS"
    by (auto simp: demo_connected_def SHORTCUT_ACTIONS_def)
  from unknown_action_rejected_by_the_executor [OF demo_connected_run h,
      of timer_ext_init "Inr None"]
  show ?thesis using h demo_connected_run by (auto simp: demo_connected_def)
qed

section \<open>The service worker: replies\<close>

lemma onmessage_Parsed:
  "msg \<noteq> JNull \<Longrightarrow>
   onmessage (Parsed msg) st =
     (st, Some \<lparr> d_id = get_prop msg ''id'',
                 d_call = handleCommand (get_prop msg ''action'') (rest_params msg) \<rparr>)"
  by (cases msg) simp_all

lemma reply_frame_id: "get_prop (reply_frame i out) ''id'' = i"
  by (cases i; cases out) (auto simp: reply_frame_def defined_props_def split: option.splits)

lemma reply_frame_success:
  "get_prop (reply_frame i out) ''success'' = Some (JBool (case out of Inl m \<Rightarrow> False | Inr r \<Rightarrow> True))"
  by (cases i; cases out) (auto simp: reply_frame_def defined_props_def split: option.splits)

lemma send_open:
  "ws st = Some s \<Longrightarrow> ws_readyState st s = OPEN \<Longrightarrow> ws_sent (send data st) = ws_sent st @ [(s, data)]"
  by (simp add: send_def)

lemma send_not_open: "\<not> ext_open st \<Longrightarrow> send data st = st"
  by (simp add: send_def ext_open_def split: option.splits)

text \<open>
  Claim C10, as the code has it. For every frame that parses to a value other than \<open>null\<close>,
  the extension sends nothing on receipt; when the command completes it sends exactly one
  reply frame if \<open>ws\<close> is then set and OPEN, and none otherwise. The reply's \<open>id\<close> is the
  \<open>id\<close> of the command frame, whether the command succeeded or failed.
\<close>

theorem reply_carries_the_command_id:
  assumes "msg \<noteq> JNull"
  shows "\<exists>d. onmessage (Parsed msg) st = (st, Some d) \<and>
             get_prop (reply_frame (d_id d) (command_outcome d browser)) ''id'' = get_prop msg ''id'' \<and>
             get_prop (reply_frame (d_id d) (command_outcome d browser)) ''success'' =
               Some (JBool (case command_outcome d browser of Inl m \<Rightarrow> False | Inr r \<Rightarrow> True)) \<and>
             (\<forall>s. ws st' = Some s \<and> ws_readyState st' s = OPEN \<longrightarrow>
                  ws_sent (onmessage_done d browser st') =
                    ws_sent st' @ [(s, reply_frame (d_id d) (command_outcome d browser))]) \<and>
             (\<not> ext_open st' \<longrightarrow> onmessage_done d browser st' = st')"
proof -
  let ?d = "\<lparr> d_id = get_prop msg ''id'',
              d_call = handleCommand (get_prop msg ''action'') (rest_params msg) \<rparr>"
  have "onmessage (Parsed msg) st = (st, Some ?d)" by (rule onmessage_Parsed [OF assms])
  moreover have "get_prop (reply_frame (d_id ?d) (command_outcome ?d browser)) ''id'' = get_prop msg ''id''"
    by (simp add: reply_frame_id)
  moreover have "\<forall>s. ws st' = Some s \<and> ws_readyState st' s = OPEN \<longrightarrow>
                  ws_sent (onmessage_done ?d browser st') =
                    ws_sent st' @ [(s, reply_frame (d_id ?d) (command_outcome ?d browser))]"
    by (simp add: onmessage_done_def send_open)
  moreover have "\<not> ext_open st' \<longrightarrow> onmessage_done ?d browser st' = st'"
    by (simp add: onmessage_done_def send_not_open)
  ultimately show ?thesis using reply_frame_success by blast
qed

lemma demo_open_ext_eq:
  "demo_open_ext = \<lparr> ws = Some 0, ws_readyState = (\<lambda>s. CLOSED)(0 := OPEN), ws_created = 1,
     ws_sent = [(0, extension_ready ''1.0.0'')], reconnectDelay = 1000, reconnectTimer = None \<rparr>"
  by (simp add: demo_open_ext_def socket_opened_def onopen_def send_def connect_def ext_busy_def
        new_WebSocket_def timer_ext_init_def RECONNECT_BASE_MS_def)

lemma demo_command_dispatched:
  "onmessage (Parsed demo_command) st = (st, Some demo_dispatched)"
  by (simp add: demo_command_def demo_dispatched_def handleCommand_def rest_params_def)

text \<open>
  The theorem at a \<open>get_title\<close> command, completing with the connection open and with
  the connection closed.
\<close>

theorem reply_carries_the_command_id_witness:
  "demo_command \<noteq> JNull \<and>
   onmessage (Parsed demo_command) demo_open_ext = (demo_open_ext, Some demo_dispatched) \<and>
   ws demo_open_ext = Some 0 \<and> ws_readyState demo_open_ext 0 = OPEN \<and>
   ws_sent (onmessage_done demo_dispatched (Inr (Some demo_title)) demo_open_ext) =
     ws_sent demo_open_ext @
       [(0, JObj [(''id'', JStr ''id-1''), (''success'', JBool True), (''data'', demo_title)])] \<and>
   \<not> ext_open (socket_closed 0 demo_open_ext) \<and>
   onmessage_done demo_dispatched (Inr (Some demo_title)) (socket_closed 0 demo_open_ext) =
     socket_closed 0 demo_open_ext"
proof -
  have n: "demo_command \<noteq> JNull" by (simp add: demo_command_def)
  have o: "ws demo_open_ext = Some 0" "ws_readyState demo_open_ext 0 = OPEN"
    by (simp_all add: demo_open_ext_eq)
  have c: "\<not> ext_open (socket_closed 0 demo_open_ext)"
    by (simp add: ext_open_def socket_closed_def onclose_def scheduleReconnect_def)
  from reply_carries_the_command_id [OF n, of demo_open_ext "Inr (Some demo_title)" demo_open_ext]
  obtain d where d: "onmessage (Parsed demo_command) demo_open_ext = (demo_open_ext, Some d)"
    and s: "\<forall>s. ws demo_open_ext = Some s \<and> ws_readyState demo_open_ext s = OPEN \<longrightarrow>
                  ws_sent (onmessage_done d (Inr (Some demo_title)) demo_open_ext) =
                    ws_sent demo_open_ext @ [(s, reply_frame (d_id d) (command_outcome d (Inr (Some demo_title))))]"
    by blast
  from d have dd: "d = demo_dispatched" by (simp add: demo_command_dispatched)
  from reply_carries_the_command_id [OF n, of demo_open_ext "Inr (Some demo_title)" "socket_closed 0 demo_open_ext"]
  obtain d' where d': "onmessage (Parsed demo_command) demo_open_ext = (demo_open_ext, Some d')"
    and s': "\<not> ext_open (socket_closed 0 demo_open_ext) \<longrightarrow>
       onmessage_done d' (Inr (Some demo_title)) (socket_closed 0 demo_open_ext) = socket_closed 0 demo_open_ext"
    by blast
  from d' have dd': "d' = demo_dispatched" by (simp add: demo_command_dispatched)
  have r: "reply_frame (d_id demo_dispatched) (command_outcome demo_dispatched (Inr (Some demo_title)))
        = JObj [(''id'', JStr ''id-1''), (''success'', JBool True), (''data'', demo_title)]"
    by (simp add: reply_frame_def command_outcome_def demo_dispatched_def defined_props_def)
  show ?thesis using n o c s s' dd dd' d r by simp
qed

text \<open>
  A command frame is received, the connection closes, the command completes: no reply frame
  has been sent; the only frame ever sent is the announcement made on opening.
\<close>

theorem no_reply_when_link_closed_counterexample:
  "onmessage (Parsed demo_command) demo_open_ext = (demo_open_ext, Some demo_dispatched) \<and>
   ws_sent (onmessage_done demo_dispatched (Inr (Some demo_title)) (socket_closed 0 demo_open_ext))
     = ws_sent demo_open_ext \<and>
   ws_sent demo_open_ext = [(0, extension_ready ''1.0.0'')]"
  by (simp add: demo_command_dispatched onmessage_done_def send_def socket_closed_def onclose_def
        scheduleReconnect_def demo_open_ext_eq)

section \<open>The service worker: reconnection\<close>

lemma spec_backoff_Suc:
  "min (spec_backoff_ms k * 2) RECONNECT_MAX_MS = spec_backoff_ms (Suc k)"
  by (simp add: spec_backoff_ms_def RECONNECT_MAX_MS_def RECONNECT_BASE_MS_def min_def)

lemma waiting_socket_closed: "waiting (reconnectDelay st) (socket_closed s st)"
  by (simp add: waiting_def socket_closed_def onclose_def scheduleReconnect_def)

lemma reconnectDelay_socket_opened: "reconnectDelay (socket_opened v s st) = RECONNECT_BASE_MS"
  by (simp add: socket_opened_def onopen_def send_def split: option.splits)

lemma waiting_failed_attempt:
  assumes "waiting d st"
  shows "waiting (min (d * 2) RECONNECT_MAX_MS) (failed_attempt st)"
  using assms
  by (simp add: waiting_def failed_attempt_def reconnect_fired_def connect_def ext_busy_def
        new_WebSocket_def socket_closed_def onclose_def scheduleReconnect_def Let_def)

lemma waiting_failed_attempts:
  "waiting (spec_backoff_ms 0) st \<Longrightarrow> waiting (spec_backoff_ms k) ((failed_attempt ^^ k) st)"
proof (induction k)
  case 0
  then show ?case by simp
next
  case (Suc k)
  from waiting_failed_attempt [OF Suc.IH [OF Suc.prems]] show ?case
    by (simp add: spec_backoff_Suc)
qed

lemma spec_backoff_0: "spec_backoff_ms 0 = RECONNECT_BASE_MS"
  by (simp add: spec_backoff_ms_def RECONNECT_MAX_MS_def RECONNECT_BASE_MS_def)

lemma polling_after_loss: "polling (socket_closed_a s (socket_opened_a v s st))"
  by (simp add: polling_def socket_closed_a_def socket_opened_a_def onclose_a_def onopen_a_def
        ensureReconnectAlarm_def send_def split: option.splits)

lemma polling_failed_attempt_a: "polling st \<Longrightarrow> polling (failed_attempt_a st)"
  by (simp add: polling_def failed_attempt_a_def onAlarm_def connect_a_def ext_busy_def
        new_WebSocket_def socket_closed_a_def onclose_a_def ensureReconnectAlarm_def Let_def)

lemma polling_failed_attempts_a: "polling st \<Longrightarrow> polling ((failed_attempt_a ^^ k) st)"
  by (induction k) (simp_all add: polling_failed_attempt_a)

text \<open>
  Claim C5, as the code has it. In the timer variant, after an open connection is lost and
  \<open>k\<close> reconnection attempts in a row have failed, the timer for the next attempt is set
  with \<open>min (1000 * 2 ^ k) 30000\<close> milliseconds, for every \<open>k\<close>; from start-up, where the first
  attempt is made at once, that is the wait after \<open>k + 1\<close> failed attempts. In the alarm
  variant the wait is the alarm's period, 0.08 minutes (4800 ms), whatever \<open>k\<close> is.
\<close>

theorem reconnect_wait:
  "timer_wait_ms ((failed_attempt ^^ k) (socket_closed s (socket_opened v s st)))
     = Some (of_nat (min (1000 * 2 ^ k) 30000)) \<and>
   timer_wait_ms ((failed_attempt ^^ k) (socket_closed 0 (connect False timer_ext_init)))
     = Some (of_nat (min (1000 * 2 ^ k) 30000)) \<and>
   alarm_wait_ms ((failed_attempt_a ^^ k) (socket_closed_a s' (socket_opened_a v' s' st')))
     = Some 4800"
proof -
  have "waiting (spec_backoff_ms 0) (socket_closed s (socket_opened v s st))"
    using waiting_socket_closed [where s = s and st = "socket_opened v s st"]
    by (simp add: reconnectDelay_socket_opened spec_backoff_0)
  from waiting_failed_attempts [OF this, where k = k]
  have a: "timer_wait_ms ((failed_attempt ^^ k) (socket_closed s (socket_opened v s st)))
     = Some (of_nat (min (1000 * 2 ^ k) 30000))"
    by (simp add: waiting_def timer_wait_ms_def spec_backoff_ms_def RECONNECT_MAX_MS_def
          RECONNECT_BASE_MS_def)
  have "waiting (spec_backoff_ms 0) (socket_closed 0 (connect False timer_ext_init))"
    using waiting_socket_closed [where s = 0 and st = "connect False timer_ext_init"]
    by (simp add: spec_backoff_0 connect_def ext_busy_def timer_ext_init_def new_WebSocket_def)
  from waiting_failed_attempts [OF this, where k = k]
  have b: "timer_wait_ms ((failed_attempt ^^ k) (socket_closed 0 (connect False timer_ext_init)))
     = Some (of_nat (min (1000 * 2 ^ k) 30000))"
    by (simp add: waiting_def timer_wait_ms_def spec_backoff_ms_def RECONNECT_MAX_MS_def
          RECONNECT_BASE_MS_def)
  from polling_failed_attempts_a [OF polling_after_loss [where s = s' and v = v' and st = st'], where k = k]
  have c: "alarm_wait_ms ((failed_attempt_a ^^ k) (socket_closed_a s' (socket_opened_a v' s' st')))
     = Some 4800"
    by (simp add: polling_def alarm_wait_ms_def)
  from a b c show ?thesis by blast
qed

text \<open>
  The alarm variant after a lost connection and one failed attempt: the wait is 4800 ms, which
  is none of \<open>min (1000 * 2 ^ k) 30000\<close> for \<open>k\<close> = 0, 1, 2.
\<close>

theorem alarm_variant_no_backoff_counterexample:
  "alarm_wait_ms (failed_attempt_a (socket_closed_a 0 (socket_opened_a ''1.0.0'' 0
       (connect_a False alarm_ext_init)))) = Some 4800 \<and>
   Some 4800 \<noteq> Some (of_nat (spec_backoff_ms 0) :: rat) \<and>
   Some 4800 \<noteq> Some (of_nat (spec_backoff_ms 1) :: rat) \<and>
   Some 4800 \<noteq> Some (of_nat (spec_backoff_ms 2) :: rat)"
  by (simp add: alarm_wait_ms_def failed_attempt_a_def onAlarm_def connect_a_def ext_busy_def
        new_WebSocket_def socket_closed_a_def socket_opened_a_def onclose_a_def onopen_a_def
        ensureReconnectAlarm_def send_def alarm_ext_init_def Let_def spec_backoff_ms_def
        RECONNECT_MAX_MS_def RECONNECT_BASE_MS_def)

section \<open>Navigation and element resolution\<close>

lemma text_walk_find: "text_walk txt sel ns = find (\<lambda>n. trim (txt n) = trim sel) ns"
  by (induction ns) simp_all

lemma text_match_first:
  "text_match doc locator = Some n \<longleftrightarrow>
     (\<exists>i < length (body_elements doc).
        body_elements doc ! i = n \<and> trim (textContent doc n) = trim locator \<and>
        (\<forall>j < i. trim (textContent doc (body_elements doc ! j)) \<noteq> trim locator))"
  by (auto simp: text_match_def find_Some_iff)

text \<open>
  Claim C6, as the code has it. For a non-empty locator \<open>resolveElement\<close> is the ordered
  first-match-wins strategy: the CSS match, with any exception counted as no match; then the
  first ordered XPath result, likewise; then the first element in document order whose trimmed
  text equals the trimmed locator; else \<open>null\<close>. For the empty locator the result is \<open>null\<close>
  and nothing is tried.
\<close>

theorem resolveElement_strategy:
  "resolveElement doc selector = (if selector = [] then None else spec_resolve doc selector)"
  by (simp add: resolveElement_def spec_resolve_def css_match_def xpath_match_def text_match_def
        text_walk_find split: dom_result.splits option.splits)

lemma ustr_simps: "ustr [] = []" "ustr (c # cs) = of_char c # ustr cs"
  by (simp_all add: ustr_def)

lemma trim_Hello: "trim (ustr ''Hello'') = ustr ''Hello''"
  by (simp add: trim_def ustr_simps is_white_space_def)

text \<open>
  The strategy is not applied to every locator string: in a document whose body holds
  \<open><div id="x">Hello</div>\<close> and an empty element, the empty locator matches the empty
  element by trimmed text, and \<open>resolveElement\<close> returns \<open>null\<close>.
\<close>

theorem resolveElement_empty_locator_counterexample:
  "resolveElement demo_doc [] \<noteq> spec_resolve demo_doc []"
  by (simp add: resolveElement_def spec_resolve_def css_match_def xpath_match_def text_match_def
        demo_doc_def ustr_simps trim_def)

lemma resolveElement_examples:
  "resolveElement demo_doc (ustr ''#x'') = Some 0"
  "resolveElement demo_doc (ustr ''//div[@id='x']'') = Some 0"
  "resolveElement demo_doc (ustr ''Hello'') = Some 0"
  "resolveElement demo_doc (ustr ''#missing'') = None"
  by (simp_all add: resolveElement_def demo_doc_def ustr_simps trim_def is_white_space_def)

lemma targetUrl_example: "targetUrl ''example.com'' = ''https://example.com''"
  by (simp add: targetUrl_def)

text \<open>
  Claim C7 at its failing inputs. \<open>navigate\<close> tests whether the url starts with "http", not
  whether it carries a scheme: "httpbin.org" has no scheme and reaches the browser unchanged,
  "ftp://example.com" carries a scheme and reaches it as "https://ftp://example.com". The
  scenario of the specification, "example.com", does become "https://example.com".
\<close>

theorem navigate_scheme_test_is_a_prefix_test:
  "handleCommand (Some (JStr ''navigate'')) [(''url'', JStr ''httpbin.org'')]
     = Inr (Navigate [(''url'', JStr ''httpbin.org'')]) \<and>
   navigate [(''url'', JStr ''httpbin.org'')] None = Inr (TabsCreate ''httpbin.org'') \<and>
   navigate [(''url'', JStr ''ftp://example.com'')] None = Inr (TabsCreate ''https://ftp://example.com'') \<and>
   navigate [(''url'', JStr ''example.com'')] None = Inr (TabsCreate ''https://example.com'')"
  by (simp add: navigate_def targetUrl_def handleCommand_def)

end
